theory Spec2Isabelle
  imports Main "HOL-Library.AList"
begin

section \<open>JavaScript values shared by the components\<close>

text \<open>
  A JavaScript string is a sequence of UTF-16 code units; a code unit is modelled as a
  natural number, so that every string the user can type is covered (white space outside
  ASCII included). \<open>str\<close> embeds an ASCII literal of the source.
\<close>

type_synonym jsstring = "nat list"

definition str :: "string \<Rightarrow> jsstring" where
  "str s = map of_char s"

text \<open>The decimal digits a template literal prints for a non-negative integer (\<open>${count}\<close>).\<close>

fun decimal :: "nat \<Rightarrow> jsstring" where
  "decimal n = (if n < 10 then [48 + n] else decimal (n div 10) @ [48 + n mod 10])"

declare decimal.simps [simp del]

text \<open>\<open>new Set(xs)\<close>: the distinct elements of \<open>xs\<close>, each at its first position.\<close>

definition new_Set :: "'a list \<Rightarrow> 'a list" where
  "new_Set xs = rev (remdups (rev xs))"

text \<open>
  An object used as a dictionary is the list of its own properties in the order of
  \<open>Object.keys\<close> and \<open>Object.entries\<close>: the keys that are array indices in ascending order,
  then the other keys in the order of their creation. An array index is the canonical
  decimal numeral of an integer below \<open>2\<^sup>3\<^sup>2 - 1\<close>.
\<close>

definition digits_value :: "jsstring \<Rightarrow> int" where
  "digits_value k = foldl (\<lambda>n c. 10 * n + (int c - 48)) 0 k"

definition array_index :: "jsstring \<Rightarrow> int option" where
  "array_index k =
     (if k \<noteq> [] \<and> list_all (\<lambda>c. 48 \<le> c \<and> c \<le> 57) k \<and> (length k = 1 \<or> hd k \<noteq> 48)
         \<and> digits_value k < 4294967295
      then Some (digits_value k) else None)"

fun insert_index :: "int \<Rightarrow> jsstring \<times> 'v \<Rightarrow> (jsstring \<times> 'v) list \<Rightarrow> (jsstring \<times> 'v) list" where
  "insert_index n kv [] = [kv]"
| "insert_index n kv (p # ps) =
     (case array_index (fst p) of
        Some m \<Rightarrow> if m < n then p # insert_index n kv ps else kv # p # ps
      | None \<Rightarrow> kv # p # ps)"

text \<open>
  \<open>obj[k] = v\<close> for a boolean \<open>v\<close>. An own property keeps its place. A new array index
  goes before the first key that is a larger array index or no array index, any other new
  key to the end. The key \<open>__proto__\<close>, when it is no own property, names the accessor
  every object inherits from \<open>Object.prototype\<close>, whose setter ignores a value that is no
  object: no property is created.
\<close>

definition js_put :: "jsstring \<Rightarrow> bool \<Rightarrow> (jsstring \<times> bool) list \<Rightarrow> (jsstring \<times> bool) list" where
  "js_put k v obj =
     (if map_of obj k \<noteq> None then AList.update k v obj
      else if k = str ''__proto__'' then obj
      else case array_index k of
             Some n \<Rightarrow> insert_index n (k, v) obj
           | None \<Rightarrow> obj @ [(k, v)])"

subsection \<open>Records exchanged with the backend\<close>

text \<open>\<open>interface BlockedDomain\<close> of BlockedList.vue.\<close>

record BlockedDomain =
  ip :: jsstring
  hostname :: jsstring

record Statistics =
  total_blocked :: int
  unique_ips :: int

text \<open>\<open>interface HistoryEntry\<close> of the history component (src/unnamed/part_000).\<close>

record HistoryEntry =
  filename :: jsstring
  path :: jsstring
  entry_count :: int
  file_size :: int
  timestamp :: int

text \<open>\<open>type Theme = "dark" | "light"\<close> of the theme composable (src/unnamed/part_002).\<close>

datatype Theme = dark | light

text \<open>
  The value of the number input bound with \<open>v-model.number\<close>: a number when the text
  parses as one, the text itself otherwise.
\<close>

datatype number_input = Number int | Fraction | Text jsstring

text \<open>
  The \<open>configJson\<close> argument of \<open>update_config\<close>. A property the caller leaves out is
  \<open>None\<close>; a path property that is present holds \<open>null\<close> (\<open>Some None\<close>) or a string.
\<close>

record configJson =
  json_host_file_path :: "jsstring option option"
  json_history_dir :: "jsstring option option"
  json_max_history_entries :: "number_input option"
  json_theme :: "jsstring option"

text \<open>What \<open>get_config\<close> answers, as Settings.vue types it.\<close>

record Config =
  host_file_path :: "jsstring option"
  history_dir :: "jsstring option"
  max_history_entries :: int
  theme :: jsstring

subsection \<open>Commands, effects and the backend\<close>

text \<open>The named remote operations the components pass to \<open>invoke\<close>, with their arguments.\<close>

datatype command =
    get_blocked_domains
  | get_statistics
  | add_domain jsstring jsstring
  | remove_domain jsstring jsstring
  | save_changes
  | get_history_list
  | rollback_to jsstring
  | delete_history_files "jsstring list"
  | get_config
  | update_config configJson
  | get_host_file_path
  | check_admin_privileges

text \<open>
  What a handler does to the outside, in order: a remote invocation, a \<open>confirm\<close> dialog,
  a toast (title and optional description) and a line on the console.
\<close>

datatype effect =
    Invoke command
  | Confirm jsstring
  | Toast_error jsstring "jsstring option"
  | Toast_success jsstring "jsstring option"
  | Console_error jsstring jsstring

text \<open>
  The outcome for one file of a \<open>delete_history_files\<close> batch. The command's result type
  is not declared in the sources (the caller never reads it); the specification calls it
  a per-file result.
\<close>

datatype deletion = Deleted | Not_deleted jsstring

text \<open>
  The backend is a parameter: for each command a transition of the backend's state
  \<open>'b\<close> that answers \<open>Inr\<close> a result (the promise resolves) or \<open>Inl\<close> an error (the promise
  rejects; \<open>String(error)\<close> is the text).
\<close>

record 'b backend =
  on_get_blocked_domains :: "'b \<Rightarrow> (jsstring + (jsstring \<times> jsstring) list) \<times> 'b"
  on_get_statistics :: "'b \<Rightarrow> (jsstring + Statistics) \<times> 'b"
  on_add_domain :: "jsstring \<Rightarrow> jsstring \<Rightarrow> 'b \<Rightarrow> (jsstring + unit) \<times> 'b"
  on_remove_domain :: "jsstring \<Rightarrow> jsstring \<Rightarrow> 'b \<Rightarrow> (jsstring + unit) \<times> 'b"
  on_save_changes :: "'b \<Rightarrow> (jsstring + unit) \<times> 'b"
  on_get_history_list :: "'b \<Rightarrow> (jsstring + HistoryEntry list) \<times> 'b"
  on_rollback_to :: "jsstring \<Rightarrow> 'b \<Rightarrow> (jsstring + unit) \<times> 'b"
  on_delete_history_files :: "jsstring list \<Rightarrow> 'b \<Rightarrow> (jsstring + (jsstring \<times> deletion) list) \<times> 'b"
  on_get_config :: "'b \<Rightarrow> (jsstring + Config) \<times> 'b"
  on_update_config :: "configJson \<Rightarrow> 'b \<Rightarrow> (jsstring + unit) \<times> 'b"
  on_get_host_file_path :: "'b \<Rightarrow> (jsstring + jsstring) \<times> 'b"
  on_check_admin_privileges :: "'b \<Rightarrow> (jsstring + bool) \<times> 'b"

text \<open>The world a handler runs in: the backend's state and the effects so far.\<close>

type_synonym 'b world = "'b \<times> effect list"

definition emit :: "effect \<Rightarrow> 'b world \<Rightarrow> 'b world" where
  "emit e w = (fst w, snd w @ [e])"

definition invoke :: "command \<Rightarrow> ('b \<Rightarrow> 'r \<times> 'b) \<Rightarrow> 'b world \<Rightarrow> 'r \<times> 'b world" where
  "invoke c f w = (case f (fst w) of (r, b) \<Rightarrow> (r, (b, snd w @ [Invoke c])))"

section \<open>The history component (src/unnamed/part_000)\<close>

text \<open>
  The three \<open>watch\<close> calls of the component, in the order of the source. A watcher whose
  source changed is queued once and its callback runs when the queue is flushed, after
  the handler that made the change has returned.
\<close>

datatype watcher = Watch_selectAllChecked | Watch_entryCheckedStates | Watch_historyEntries

text \<open>
  The component's refs. \<open>selectedEntries\<close> is a \<open>Set\<close> (its elements in insertion order),
  \<open>entryCheckedStates\<close> an object (its own properties in the order of \<open>Object.keys\<close>). \<open>jobs\<close> is the
  queue of triggered watchers and \<open>seen_selectAllChecked\<close> the value the first watcher
  compares the ref with (the value of its last run).
\<close>

record History =
  historyEntries :: "HistoryEntry list"
  isLoading :: bool
  isRollingBack :: bool
  isDeleting :: bool
  selectedEntries :: "jsstring list"
  selectAllChecked :: bool
  entryCheckedStates :: "(jsstring \<times> bool) list"
  jobs :: "watcher list"
  seen_selectAllChecked :: bool

definition queueJob :: "watcher \<Rightarrow> History \<Rightarrow> History" where
  "queueJob j h = (if j \<in> set (jobs h) then h else h\<lparr>jobs := jobs h @ [j]\<rparr>)"

text \<open>
  Assignments to the watched refs: a watcher is triggered when the value changes. The
  reactive object triggers its deep watcher when a key that was no own property is
  assigned, when the value of an own property changes, and when an own property is
  deleted.
\<close>

definition set_selectAllChecked :: "bool \<Rightarrow> History \<Rightarrow> History" where
  "set_selectAllChecked b h =
     (if selectAllChecked h = b then h
      else queueJob Watch_selectAllChecked (h\<lparr>selectAllChecked := b\<rparr>))"

definition set_entryChecked :: "jsstring \<Rightarrow> bool \<Rightarrow> History \<Rightarrow> History" where
  "set_entryChecked k v h =
     (if map_of (entryCheckedStates h) k = Some v then h
      else queueJob Watch_entryCheckedStates
             (h\<lparr>entryCheckedStates := js_put k v (entryCheckedStates h)\<rparr>))"

definition delete_entryChecked :: "jsstring \<Rightarrow> History \<Rightarrow> History" where
  "delete_entryChecked k h =
     (if map_of (entryCheckedStates h) k = None then h
      else queueJob Watch_entryCheckedStates
             (h\<lparr>entryCheckedStates := AList.delete k (entryCheckedStates h)\<rparr>))"

definition set_historyEntries :: "HistoryEntry list \<Rightarrow> History \<Rightarrow> History" where
  "set_historyEntries entries h = queueJob Watch_historyEntries (h\<lparr>historyEntries := entries\<rparr>)"

text \<open>
  \<open>key in object\<close> also finds the properties every object inherits from
  \<open>Object.prototype\<close>.
\<close>

definition Object_prototype :: "jsstring list" where
  "Object_prototype = map str
     [''constructor'', ''hasOwnProperty'', ''isPrototypeOf'', ''propertyIsEnumerable'',
      ''toLocaleString'', ''toString'', ''valueOf'', ''__proto__'', ''__defineGetter__'',
      ''__defineSetter__'', ''__lookupGetter__'', ''__lookupSetter__'']"

definition js_in :: "jsstring \<Rightarrow> (jsstring \<times> bool) list \<Rightarrow> bool" where
  "js_in k obj = (map_of obj k \<noteq> None \<or> k \<in> set Object_prototype)"

definition updateSelectedEntries :: "History \<Rightarrow> History" where
  "updateSelectedEntries h =
     (let h1 = h\<lparr>selectedEntries := new_Set (map fst (filter snd (entryCheckedStates h)))\<rparr>
      in set_selectAllChecked
           (length (historyEntries h1) > 0 \<and> length (selectedEntries h1) = length (historyEntries h1))
           h1)"

text \<open>The callbacks of the three watchers.\<close>

definition on_selectAllChecked :: "bool \<Rightarrow> History \<Rightarrow> History" where
  "on_selectAllChecked checked h =
     updateSelectedEntries
       (fold (\<lambda>entry. set_entryChecked (filename entry) checked) (historyEntries h) h)"

definition on_entryCheckedStates :: "History \<Rightarrow> History" where
  "on_entryCheckedStates h = updateSelectedEntries h"

definition on_historyEntries :: "HistoryEntry list \<Rightarrow> History \<Rightarrow> History" where
  "on_historyEntries entries h =
     (let h1 = fold (\<lambda>entry s.
                  if \<not> js_in (filename entry) (entryCheckedStates s)
                  then set_entryChecked (filename entry) False s else s) entries h;
          h2 = fold (\<lambda>fname s.
                  if find (\<lambda>e. filename e = fname) entries = None
                  then delete_entryChecked fname s else s) (map fst (entryCheckedStates h1)) h1
      in updateSelectedEntries h2)"

text \<open>
  Running a queued watcher. The watcher of \<open>selectAllChecked\<close> calls back only when the
  ref differs from the value of its last run; the deep watcher and the watcher of the
  entry list call back whenever they were triggered.
\<close>

fun run_job :: "watcher \<Rightarrow> History \<Rightarrow> History" where
  "run_job Watch_selectAllChecked h =
     (if selectAllChecked h = seen_selectAllChecked h then h
      else on_selectAllChecked (selectAllChecked h)
             (h\<lparr>seen_selectAllChecked := selectAllChecked h\<rparr>))"
| "run_job Watch_entryCheckedStates h = on_entryCheckedStates h"
| "run_job Watch_historyEntries h = on_historyEntries (historyEntries h) h"

text \<open>
  Flushing the queue: the first job is taken off and run, which may queue further jobs
  (itself included), until the queue is empty. Nothing bounds the number of rounds, so
  not returning is the value \<open>None\<close>.
\<close>

partial_function (option) flushJobs :: "History \<Rightarrow> History option" where
  "flushJobs h =
     (case jobs h of
        [] \<Rightarrow> Some h
      | j # js \<Rightarrow> flushJobs (run_job j (h\<lparr>jobs := js\<rparr>)))"

text \<open>
  The component as \<open>setup\<close> leaves it: the refs' initial values, and the watcher of the
  entry list run once (\<open>immediate: true\<close>).
\<close>

definition History_refs :: History where
  "History_refs =
     \<lparr>historyEntries = [], isLoading = False, isRollingBack = False, isDeleting = False,
      selectedEntries = [], selectAllChecked = False, entryCheckedStates = [],
      jobs = [], seen_selectAllChecked = False\<rparr>"

definition History_setup :: "History option" where
  "History_setup = flushJobs (on_historyEntries [] History_refs)"

subsection \<open>Handlers\<close>

text \<open>
  The template literals of the two destructive handlers: the questions they put to
  \<open>confirm\<close>, and the success message of \<open>deleteSelected\<close>.
\<close>

definition rollback_question :: "jsstring \<Rightarrow> jsstring" where
  "rollback_question fname =
     str ''Are you sure you want to rollback to '' @ fname
       @ str ''? This will replace your current hosts file.''"

definition delete_question :: "nat \<Rightarrow> jsstring" where
  "delete_question count =
     (if count = 1 then str ''Are you sure you want to delete this history entry?''
      else str ''Are you sure you want to delete '' @ decimal count @ str '' history entries?'')"

definition deleted_message :: "nat \<Rightarrow> jsstring" where
  "deleted_message count =
     str ''Successfully deleted '' @ decimal count @ str '' ''
       @ (if count = 1 then str ''entry'' else str ''entries'')"

definition loadHistory :: "'b backend \<Rightarrow> History \<times> 'b world \<Rightarrow> History \<times> 'b world" where
  "loadHistory be = (\<lambda>(h, w).
     let h1 = h\<lparr>isLoading := True\<rparr>;
         (r, w1) = invoke get_history_list (on_get_history_list be) w
     in case r of
          Inr entries \<Rightarrow>
            ((set_historyEntries entries h1)\<lparr>selectedEntries := [], isLoading := False\<rparr>, w1)
        | Inl error \<Rightarrow>
            (h1\<lparr>isLoading := False\<rparr>,
             emit (Toast_error (str ''Failed to load history'') (Some error))
               (emit (Console_error (str ''Failed to load history:'') error) w1)))"

text \<open>The argument the checkbox passes to \<open>setEntryChecked\<close>.\<close>

datatype checked_state = Bool bool | Indeterminate | Undefined

definition setEntryChecked :: "jsstring \<Rightarrow> checked_state \<Rightarrow> History \<Rightarrow> History" where
  "setEntryChecked fname checked h =
     updateSelectedEntries (set_entryChecked fname (checked = Bool True) h)"

definition deleteSelected ::
  "'b backend \<Rightarrow> (jsstring \<Rightarrow> bool) \<Rightarrow> History \<times> 'b world \<Rightarrow> History \<times> 'b world" where
  "deleteSelected be confirm = (\<lambda>(h, w).
     if length (selectedEntries h) = 0
     then (h, emit (Toast_error (str ''No entries selected'') None) w)
     else
       let count = length (selectedEntries h);
           message = delete_question count;
           w1 = emit (Confirm message) w
       in if \<not> confirm message then (h, w1)
          else
            let h1 = h\<lparr>isDeleting := True\<rparr>;
                filenames = selectedEntries h1;
                (r, w2) = invoke (delete_history_files filenames)
                            (on_delete_history_files be filenames) w1
            in case r of
                 Inr report \<Rightarrow>
                   let w3 = emit (Toast_success (deleted_message count) None) w2;
                       (h2, w4) = loadHistory be (h1, w3)
                   in (h2\<lparr>isDeleting := False\<rparr>, w4)
               | Inl error \<Rightarrow>
                   (h1\<lparr>isDeleting := False\<rparr>,
                    emit (Toast_error (str ''Failed to delete history files'') (Some error))
                      (emit (Console_error (str ''Failed to delete history files:'') error) w2)))"

definition rollbackTo ::
  "'b backend \<Rightarrow> (jsstring \<Rightarrow> bool) \<Rightarrow> jsstring \<Rightarrow> History \<times> 'b world \<Rightarrow> History \<times> 'b world" where
  "rollbackTo be confirm fname = (\<lambda>(h, w).
     let message = rollback_question fname;
         w1 = emit (Confirm message) w
     in if \<not> confirm message then (h, w1)
        else
          let h1 = h\<lparr>isRollingBack := True\<rparr>;
              (r, w2) = invoke (rollback_to fname) (on_rollback_to be fname) w1
          in case r of
               Inr _ \<Rightarrow>
                 let w3 = emit (Toast_success (str ''Rollback successful!'')
                              (Some (str ''The hosts file has been restored.''))) w2;
                     (h2, w4) = loadHistory be (h1, w3)
                 in (h2\<lparr>isRollingBack := False\<rparr>, w4)
             | Inl error \<Rightarrow>
                 (h1\<lparr>isRollingBack := False\<rparr>,
                  emit (Toast_error (str ''Failed to rollback'') (Some error))
                    (emit (Console_error (str ''Failed to rollback:'') error) w2)))"

subsection \<open>Selection operations\<close>

text \<open>
  The operations on the selection, each followed by the flush of the watchers it
  triggered. The select-all checkbox and the entries' checkboxes are rendered when the
  list is not loading and not empty; a click on the select-all checkbox or its label
  assigns the negated value to \<open>selectAllChecked\<close>; the checkbox of the \<open>k\<close>-th listed entry
  calls \<open>setEntryChecked\<close> with that entry's file name.
\<close>

definition toggle_selectAll :: "History \<Rightarrow> History option" where
  "toggle_selectAll h =
     (if History.isLoading h \<or> historyEntries h = [] then Some h
      else flushJobs (set_selectAllChecked (\<not> selectAllChecked h) h))"

definition check_entry :: "nat \<Rightarrow> checked_state \<Rightarrow> History \<Rightarrow> History option" where
  "check_entry k checked h =
     (if History.isLoading h \<or> \<not> k < length (historyEntries h) then Some h
      else flushJobs (setEntryChecked (filename (historyEntries h ! k)) checked h))"

definition reload :: "'b backend \<Rightarrow> History \<times> 'b world \<Rightarrow> (History \<times> 'b world) option" where
  "reload be hw =
     (case loadHistory be hw of
        (h1, w1) \<Rightarrow> (case flushJobs h1 of None \<Rightarrow> None | Some h2 \<Rightarrow> Some (h2, w1)))"

text \<open>
  What \<open>loadHistory\<close> makes of the component for an answer \<open>r\<close> of \<open>get_history_list\<close>
  (\<open>loadHistory_state\<close> below proves that it is this).
\<close>

definition loaded :: "jsstring + HistoryEntry list \<Rightarrow> History \<Rightarrow> History" where
  "loaded r h =
     (case r of
        Inr entries \<Rightarrow>
          (set_historyEntries entries (h\<lparr>History.isLoading := True\<rparr>))
            \<lparr>selectedEntries := [], History.isLoading := False\<rparr>
      | Inl error \<Rightarrow> h\<lparr>History.isLoading := False\<rparr>)"

text \<open>
  A listing as the data model has it: the file names of the entries are unique. They are
  derived from timestamps; none is the name of a property of \<open>Object.prototype\<close>.
\<close>

definition listing_ok :: "jsstring + HistoryEntry list \<Rightarrow> bool" where
  "listing_ok r =
     (case r of
        Inl error \<Rightarrow> True
      | Inr entries \<Rightarrow>
          distinct (map filename entries)
          \<and> list_all (\<lambda>e. filename e \<notin> set Object_prototype) entries)"

text \<open>
  The states of the component between two events: the state after \<open>setup\<close>, and the
  state after a selection operation on such a state.
\<close>

inductive reachable :: "History \<Rightarrow> bool" where
  mounted: "History_setup = Some h \<Longrightarrow> reachable h"
| toggled: "reachable h \<Longrightarrow> toggle_selectAll h = Some h' \<Longrightarrow> reachable h'"
| entry_checked: "reachable h \<Longrightarrow> check_entry k c h = Some h' \<Longrightarrow> reachable h'"
| reloaded: "reachable h \<Longrightarrow> listing_ok r \<Longrightarrow> flushJobs (loaded r h) = Some h' \<Longrightarrow> reachable h'"

text \<open>
  The consistency of the selection, in the claim's words: the selected entries are the
  file names whose checked state is true, and select-all is checked exactly when the list
  is not empty and every listed entry is checked.
\<close>

definition selection_consistent :: "History \<Rightarrow> bool" where
  "selection_consistent h =
     (set (selectedEntries h) = {f. map_of (entryCheckedStates h) f = Some True} \<and>
      (selectAllChecked h \<longleftrightarrow>
         historyEntries h \<noteq> [] \<and>
         (\<forall>e \<in> set (historyEntries h). map_of (entryCheckedStates h) (filename e) = Some True)))"

subsection \<open>Formatting an entry's time\<close>

text \<open>
  A JavaScript \<open>Date\<close>: its time value, the milliseconds since the epoch, or the invalid
  date. \<open>new Date(v)\<close> for a number \<open>v\<close> is invalid when \<open>v\<close> is beyond 8.64e15 milliseconds
  on either side of the epoch. The numbers are modelled as integers: an integer timestamp
  times 1000 is exact in double precision wherever the date is valid.
\<close>

datatype Date = Date int | Invalid_Date

definition new_Date :: "int \<Rightarrow> Date" where
  "new_Date v = (if \<bar>v\<bar> \<le> 8640000000000000 then Date v else Invalid_Date)"

text \<open>
  \<open>formatDate\<close>. The rendering of \<open>toLocaleString\<close> depends on the locale and the time
  zone of the machine; it is a parameter.
\<close>

definition formatDate :: "(Date \<Rightarrow> jsstring) \<Rightarrow> int \<Rightarrow> jsstring" where
  "formatDate toLocaleString t = toLocaleString (new_Date (t * 1000))"

text \<open>A rendering for the examples: the time value in decimal digits.\<close>

definition time_value_digits :: "Date \<Rightarrow> jsstring" where
  "time_value_digits d =
     (case d of Date v \<Rightarrow> (if v < 0 then str ''-'' else []) @ decimal (nat \<bar>v\<bar>)
              | Invalid_Date \<Rightarrow> str ''Invalid Date'')"

text \<open>
  Modelled from the spec: the History Manager, whose sources are not in the repository,
  stores in an entry's \<open>timestamp\<close> the unix time in seconds of the save. \<open>unix_seconds\<close>
  is that time for an instant given in milliseconds since the epoch.
\<close>

definition unix_seconds :: "int \<Rightarrow> int" where
  "unix_seconds ms = ms div 1000"

text \<open>
  Modelled from the spec: the metadata the History Manager records in the snapshot step
  of a save at the instant \<open>now\<close> (milliseconds since the epoch), \<open>{filename, path,
  entry_count, file_size, timestamp = now}\<close> with the timestamp in unix seconds. The file
  name, the path and the two sizes are what the snapshot step found; how it derives them
  is not needed here.
\<close>

definition history_record :: "int \<Rightarrow> jsstring \<Rightarrow> jsstring \<Rightarrow> int \<Rightarrow> int \<Rightarrow> HistoryEntry" where
  "history_record now fname p entries bytes =
     \<lparr>filename = fname, path = p, entry_count = entries, file_size = bytes,
      timestamp = unix_seconds now\<rparr>"

subsection \<open>Reading a trace\<close>

text \<open>The remote invocations of a trace, in order.\<close>

fun invocations :: "effect list \<Rightarrow> command list" where
  "invocations [] = []"
| "invocations (Invoke c # es) = c # invocations es"
| "invocations (e # es) = invocations es"

subsection \<open>A reference backend\<close>

text \<open>
  The backend's sources (the Rust crate) are not in the repository. The definitions of
  this subsection follow the specification's words; they give the theorems below a
  concrete backend to run the components against.
\<close>

text \<open>
  Modelled from the spec: the History Manager's \<open>delete(filenames)\<close>, whose sources are
  not in the repository. It removes the index entry of each file of the batch in turn,
  fails per entry (a file that is not in the index) and reports for every file whether it
  was deleted, rather than aborting the batch.
\<close>

definition history_delete_one :: "jsstring \<Rightarrow> HistoryEntry list \<Rightarrow> deletion \<times> HistoryEntry list" where
  "history_delete_one f index =
     (if f \<in> set (map filename index)
      then (Deleted, filter (\<lambda>e. filename e \<noteq> f) index)
      else (Not_deleted (str ''NotFoundError''), index))"

fun history_delete ::
  "jsstring list \<Rightarrow> HistoryEntry list \<Rightarrow> (jsstring \<times> deletion) list \<times> HistoryEntry list" where
  "history_delete [] index = ([], index)"
| "history_delete (f # fs) index =
     (case history_delete_one f index of
        (d, index1) \<Rightarrow>
          (case history_delete fs index1 of (ds, index2) \<Rightarrow> ((f, d) # ds, index2)))"

text \<open>
  Modelled from the spec: the Config Store's \<open>update(partial fields)\<close>, whose sources are
  not in the repository. The fields that are present are merged into the existing
  configuration, and \<open>max_history_entries\<close> is clamped to the interval from 1 to 1000
  before the configuration is persisted. A value for \<open>max_history_entries\<close> that is not an
  integer is refused with a ValidationError and nothing is persisted.
\<close>

definition clamp_history_entries :: "int \<Rightarrow> int" where
  "clamp_history_entries n = max 1 (min 1000 n)"

definition config_update :: "configJson \<Rightarrow> Config \<Rightarrow> jsstring + Config" where
  "config_update u c =
     (let c1 = (case json_host_file_path u of None \<Rightarrow> c | Some p \<Rightarrow> c\<lparr>host_file_path := p\<rparr>);
          c2 = (case json_history_dir u of None \<Rightarrow> c1 | Some p \<Rightarrow> c1\<lparr>history_dir := p\<rparr>);
          c3 = (case json_theme u of None \<Rightarrow> c2 | Some t \<Rightarrow> c2\<lparr>theme := t\<rparr>)
      in case json_max_history_entries u of
           None \<Rightarrow> Inr (c3\<lparr>max_history_entries := clamp_history_entries (max_history_entries c3)\<rparr>)
         | Some (Number n) \<Rightarrow> Inr (c3\<lparr>max_history_entries := clamp_history_entries n\<rparr>)
         | Some other \<Rightarrow> Inl (str ''ValidationError''))"

text \<open>The invariant of the configuration's history limit.\<close>

definition history_limit_ok :: "Config \<Rightarrow> bool" where
  "history_limit_ok c = (1 \<le> max_history_entries c \<and> max_history_entries c \<le> 1000)"

text \<open>
  Modelled from the spec: the configuration before any update, with the history limit of
  the configuration example (50) and no path overrides.
\<close>

definition default_config :: Config where
  "default_config =
     \<lparr>host_file_path = None, history_dir = None, max_history_entries = 50, theme = str ''dark''\<rparr>"

text \<open>
  Modelled from the spec: the shared application state, reduced to the mapping records
  (address and host name, in file order), the history index (newest first), the
  configuration and whether the process has administrator privileges.
\<close>

record store =
  records :: "(jsstring \<times> jsstring) list"
  history_index :: "HistoryEntry list"
  configuration :: Config
  privileged :: bool

text \<open>
  Modelled from the spec: the policy of \<open>statistics\<close>, entries whose address is a loopback
  or block address.
\<close>

definition is_block_address :: "jsstring \<Rightarrow> bool" where
  "is_block_address a = (a = str ''127.0.0.1'' \<or> a = str ''0.0.0.0'')"

text \<open>
  Modelled from the spec: the operations of the external interface over that state.
  \<open>add_domain\<close> appends the pair unless it is there already; \<open>remove_domain\<close> removes its
  first occurrence and fails with NotFoundError when there is none; \<open>save_changes\<close> and
  \<open>rollback_to\<close> need the privilege to write the hosts file (the snapshot and the write
  themselves are not modelled); \<open>rollback_to\<close> fails with NotFoundError for a file that is
  not in the index; \<open>update_config\<close> persists what \<open>config_update\<close> answers.
\<close>

definition reference_backend :: "store backend" where
  "reference_backend =
     \<lparr>on_get_blocked_domains = (\<lambda>s. (Inr (new_Set (records s)), s)),
      on_get_statistics = (\<lambda>s.
         (Inr \<lparr>total_blocked = int (length (filter (\<lambda>d. is_block_address (fst d)) (records s))),
               unique_ips = int (length (new_Set (map fst
                              (filter (\<lambda>d. is_block_address (fst d)) (records s)))))\<rparr>, s)),
      on_add_domain = (\<lambda>i n s.
         (Inr (), if (i, n) \<in> set (records s) then s else s\<lparr>records := records s @ [(i, n)]\<rparr>)),
      on_remove_domain = (\<lambda>i n s.
         if (i, n) \<in> set (records s) then (Inr (), s\<lparr>records := remove1 (i, n) (records s)\<rparr>)
         else (Inl (str ''NotFoundError''), s)),
      on_save_changes = (\<lambda>s. (if privileged s then Inr () else Inl (str ''PrivilegeError''), s)),
      on_get_history_list = (\<lambda>s. (Inr (history_index s), s)),
      on_rollback_to = (\<lambda>f s.
         (if f \<notin> set (map filename (history_index s)) then Inl (str ''NotFoundError'')
          else if privileged s then Inr () else Inl (str ''PrivilegeError''), s)),
      on_delete_history_files = (\<lambda>fs s.
         case history_delete fs (history_index s) of (ds, i) \<Rightarrow> (Inr ds, s\<lparr>history_index := i\<rparr>)),
      on_get_config = (\<lambda>s. (Inr (configuration s), s)),
      on_update_config = (\<lambda>u s.
         case config_update u (configuration s) of
           Inr c \<Rightarrow> (Inr (), s\<lparr>configuration := c\<rparr>)
         | Inl e \<Rightarrow> (Inl e, s)),
      on_get_host_file_path = (\<lambda>s.
         (Inr (case host_file_path (configuration s) of
                 Some p \<Rightarrow> p
               | None \<Rightarrow> str ''/etc/hosts''), s)),
      on_check_admin_privileges = (\<lambda>s. (Inr (privileged s), s))\<rparr>"

text \<open>A backend on which every command is rejected with the same error.\<close>

definition rejecting_backend :: "jsstring \<Rightarrow> unit backend" where
  "rejecting_backend e =
     \<lparr>on_get_blocked_domains = (\<lambda>s. (Inl e, s)),
      on_get_statistics = (\<lambda>s. (Inl e, s)),
      on_add_domain = (\<lambda>i n s. (Inl e, s)),
      on_remove_domain = (\<lambda>i n s. (Inl e, s)),
      on_save_changes = (\<lambda>s. (Inl e, s)),
      on_get_history_list = (\<lambda>s. (Inl e, s)),
      on_rollback_to = (\<lambda>f s. (Inl e, s)),
      on_delete_history_files = (\<lambda>fs s. (Inl e, s)),
      on_get_config = (\<lambda>s. (Inl e, s)),
      on_update_config = (\<lambda>u s. (Inl e, s)),
      on_get_host_file_path = (\<lambda>s. (Inl e, s)),
      on_check_admin_privileges = (\<lambda>s. (Inl e, s))\<rparr>"

text \<open>A history entry with the given file name and timestamp.\<close>

definition snapshot :: "string \<Rightarrow> int \<Rightarrow> HistoryEntry" where
  "snapshot name t =
     \<lparr>filename = str name, path = str ''history/'' @ str name, entry_count = 0,
      file_size = 0, timestamp = t\<rparr>"

text \<open>
  A store with one blocked domain and two history entries, for a process without
  administrator privileges.
\<close>

definition example_store :: store where
  "example_store =
     \<lparr>records = [(str ''127.0.0.1'', str ''ads.example.com'')],
      history_index = [snapshot ''hosts_2'' 1700000600, snapshot ''hosts_1'' 1700000000],
      configuration = default_config, privileged = False\<rparr>"

text \<open>
  States of the history view on that store: after the first load of its listing, after a
  click on the checkbox of the first entry, and after a click on select-all.
\<close>

definition listed_example :: History where
  "listed_example =
     History_refs\<lparr>historyEntries := history_index example_store,
       entryCheckedStates := [(str ''hosts_2'', False), (str ''hosts_1'', False)]\<rparr>"

definition one_selected_example :: History where
  "one_selected_example =
     listed_example\<lparr>entryCheckedStates := [(str ''hosts_2'', True), (str ''hosts_1'', False)],
       selectedEntries := [str ''hosts_2'']\<rparr>"

definition all_selected_example :: History where
  "all_selected_example =
     listed_example\<lparr>entryCheckedStates := [(str ''hosts_2'', True), (str ''hosts_1'', True)],
       selectedEntries := [str ''hosts_2'', str ''hosts_1''],
       selectAllChecked := True, seen_selectAllChecked := True\<rparr>"

section \<open>The blocked-domains component (src/src/components/BlockedList.vue)\<close>

subsection \<open>\<open>String.prototype.trim\<close>\<close>

text \<open>
  The code units \<open>trim\<close> strips from both ends: the white space and line terminators
  of ECMAScript (TAB, LF, VT, FF, CR, SP, NBSP, U+1680, U+2000 to U+200A, U+2028, U+2029,
  U+202F, U+205F, U+3000, U+FEFF).
\<close>

definition is_white_space :: "nat \<Rightarrow> bool" where
  "is_white_space c =
     (c \<in> {9, 10, 11, 12, 13, 32, 160, 5760, 8232, 8233, 8239, 8287, 12288, 65279}
      \<or> (8192 \<le> c \<and> c \<le> 8202))"

definition trim :: "jsstring \<Rightarrow> jsstring" where
  "trim s = rev (dropWhile is_white_space (rev (dropWhile is_white_space s)))"

subsection \<open>The regular expression of \<open>addDomain\<close>\<close>

text \<open>
  The constructs the pattern uses: a range of code units (a character class is an
  alternative of ranges), alternative, sequence, \<open>r?\<close>, \<open>r*\<close> and \<open>r{0,n}\<close>.
\<close>

datatype regex =
    Between nat nat
  | Alt regex regex
  | Seq regex regex
  | Opt regex
  | Star regex
  | Upto regex nat

text \<open>A measure for the matcher: the size of the expression, repetition bounds included.\<close>

primrec weight :: "regex \<Rightarrow> nat" where
  "weight (Between a b) = 1"
| "weight (Alt r1 r2) = Suc (weight r1 + weight r2)"
| "weight (Seq r1 r2) = Suc (weight r1 + weight r2)"
| "weight (Opt r) = Suc (weight r)"
| "weight (Star r) = Suc (weight r)"
| "weight (Upto r n) = Suc (weight r + n)"

text \<open>
  A backtracking matcher. \<open>rest r s\<close> lists, in the order a backtracking engine tries
  them (greedy first), the remainders of \<open>s\<close> after each way of matching \<open>r\<close> at its
  start. As in ECMAScript, an iteration of \<open>r*\<close> that matched the empty string is given up.
\<close>

function rest :: "regex \<Rightarrow> jsstring \<Rightarrow> jsstring list" where
  "rest (Between a b) s = (case s of [] \<Rightarrow> [] | c # cs \<Rightarrow> if a \<le> c \<and> c \<le> b then [cs] else [])"
| "rest (Alt r1 r2) s = rest r1 s @ rest r2 s"
| "rest (Seq r1 r2) s = concat (map (rest r2) (rest r1 s))"
| "rest (Opt r) s = rest r s @ [s]"
| "rest (Star r) s =
     concat (map (rest (Star r)) (filter (\<lambda>t. length t < length s) (rest r s))) @ [s]"
| "rest (Upto r n) s =
     (if n = 0 then [s] else concat (map (rest (Upto r (n - 1))) (rest r s)) @ [s])"
  by pat_completeness auto
termination
  by (relation "measures [\<lambda>(r, s). weight r, \<lambda>(r, s). length s]") auto

declare rest.simps(5) [simp del] rest.simps(6) [simp del]

text \<open>
  \<open>/^r$/.test(s)\<close>, without flags: \<open>r\<close> matches at the start and the match ends at the
  end of \<open>s\<close>.
\<close>

definition test :: "regex \<Rightarrow> jsstring \<Rightarrow> bool" where
  "test r s = ([] \<in> set (rest r s))"

text \<open>
  The pattern of the source,
  \<^verbatim>\<open>^[a-zA-Z0-9]([a-zA-Z0-9-]{0,61}[a-zA-Z0-9])?(\.[a-zA-Z0-9]([a-zA-Z0-9-]{0,61}[a-zA-Z0-9])?)*$\<close>:
  \<open>alnum\<close> is \<open>[a-zA-Z0-9]\<close>, \<open>alnum_hyphen\<close> is \<open>[a-zA-Z0-9-]\<close>, \<open>label\<close> is
  \<open>[a-zA-Z0-9]([a-zA-Z0-9-]{0,61}[a-zA-Z0-9])?\<close>, and 46 is the code unit of the dot.
\<close>

definition alnum :: regex where
  "alnum = Alt (Between 97 122) (Alt (Between 65 90) (Between 48 57))"

definition alnum_hyphen :: regex where
  "alnum_hyphen = Alt (Between 97 122) (Alt (Between 65 90) (Alt (Between 48 57) (Between 45 45)))"

definition label :: regex where
  "label = Seq alnum (Opt (Seq (Upto alnum_hyphen 61) alnum))"

definition domain_regex :: regex where
  "domain_regex = Seq label (Star (Seq (Between 46 46) label))"

subsection \<open>State and handlers\<close>

text \<open>The refs of the component; \<open>props.disabled\<close> is a parameter of the template below.\<close>

record BlockedList =
  blockedDomains :: "BlockedDomain list"
  statistics :: Statistics
  isLoading :: bool
  isSaving :: bool
  showAddInput :: bool
  newDomain :: jsstring
  isAdding :: bool

definition loadBlockedDomains ::
  "'b backend \<Rightarrow> BlockedList \<times> 'b world \<Rightarrow> BlockedList \<times> 'b world" where
  "loadBlockedDomains be = (\<lambda>(s, w).
     let s1 = s\<lparr>isLoading := True\<rparr>;
         (r1, w1) = invoke get_blocked_domains (on_get_blocked_domains be) w
     in case r1 of
          Inl error \<Rightarrow>
            (s1\<lparr>isLoading := False\<rparr>,
             emit (Console_error (str ''Failed to load blocked domains:'') error) w1)
        | Inr domains \<Rightarrow>
            let s2 = s1\<lparr>blockedDomains :=
                         map (\<lambda>(i, n). \<lparr>ip = i, hostname = n\<rparr>) domains\<rparr>;
                (r2, w2) = invoke get_statistics (on_get_statistics be) w1
            in case r2 of
                 Inl error \<Rightarrow>
                   (s2\<lparr>isLoading := False\<rparr>,
                    emit (Console_error (str ''Failed to load blocked domains:'') error) w2)
               | Inr stats \<Rightarrow> (s2\<lparr>statistics := stats, isLoading := False\<rparr>, w2))"

definition addDomain ::
  "'b backend \<Rightarrow> BlockedList \<times> 'b world \<Rightarrow> BlockedList \<times> 'b world" where
  "addDomain be = (\<lambda>(s, w).
     let domain = trim (newDomain s)
     in if domain = [] then (s, emit (Toast_error (str ''Please enter a domain name'') None) w)
        else if \<not> test domain_regex domain
        then (s, emit (Toast_error (str ''Please enter a valid domain name'') None) w)
        else
          let s1 = s\<lparr>isAdding := True\<rparr>;
              (r, w1) = invoke (add_domain (str ''127.0.0.1'') domain)
                          (on_add_domain be (str ''127.0.0.1'') domain) w
          in case r of
               Inr u \<Rightarrow>
                 let (s2, w2) = loadBlockedDomains be (s1, w1)
                 in (s2\<lparr>newDomain := [], showAddInput := False, isAdding := False\<rparr>,
                     emit (Toast_success (str ''Domain added successfully'') None) w2)
             | Inl error \<Rightarrow>
                 (s1\<lparr>isAdding := False\<rparr>,
                  emit (Toast_error (str ''Failed to add domain'') (Some error))
                    (emit (Console_error (str ''Failed to add domain:'') error) w1)))"

definition removeDomain ::
  "'b backend \<Rightarrow> jsstring \<Rightarrow> jsstring \<Rightarrow> BlockedList \<times> 'b world \<Rightarrow> BlockedList \<times> 'b world" where
  "removeDomain be i n = (\<lambda>(s, w).
     let (r, w1) = invoke (remove_domain i n) (on_remove_domain be i n) w
     in case r of
          Inr u \<Rightarrow>
            let (s1, w2) = loadBlockedDomains be (s, w1)
            in (s1, emit (Toast_success (str ''Domain removed successfully'') None) w2)
        | Inl error \<Rightarrow>
            (s, emit (Toast_error (str ''Failed to remove domain'') (Some error))
                  (emit (Console_error (str ''Failed to remove domain:'') error) w1)))"

definition saveChanges ::
  "'b backend \<Rightarrow> BlockedList \<times> 'b world \<Rightarrow> BlockedList \<times> 'b world" where
  "saveChanges be = (\<lambda>(s, w).
     let s1 = s\<lparr>isSaving := True\<rparr>;
         (r, w1) = invoke save_changes (on_save_changes be) w
     in case r of
          Inr u \<Rightarrow>
            let (s2, w2) = loadBlockedDomains be (s1, w1)
            in (s2\<lparr>isSaving := False\<rparr>,
                emit (Toast_success (str ''Changes saved successfully!'') None) w2)
        | Inl error \<Rightarrow>
            (s1\<lparr>isSaving := False\<rparr>,
             emit (Toast_error (str ''Failed to save changes'') (Some error))
               (emit (Console_error (str ''Failed to save changes:'') error) w1)))"

text \<open>The keys \<open>handleAddKeydown\<close> tells apart.\<close>

datatype key = Enter | Escape | Other_key

definition handleAddKeydown ::
  "'b backend \<Rightarrow> key \<Rightarrow> BlockedList \<times> 'b world \<Rightarrow> BlockedList \<times> 'b world" where
  "handleAddKeydown be e = (\<lambda>(s, w).
     case e of
       Enter \<Rightarrow> addDomain be (s, w)
     | Escape \<Rightarrow> (s\<lparr>showAddInput := False, newDomain := []\<rparr>, w)
     | Other_key \<Rightarrow> (s, w))"

text \<open>The component as \<open>setup\<close> leaves it; \<open>onMounted\<close> then runs \<open>loadBlockedDomains\<close>.\<close>

definition BlockedList_refs :: BlockedList where
  "BlockedList_refs =
     \<lparr>blockedDomains = [], statistics = \<lparr>total_blocked = 0, unique_ips = 0\<rparr>,
      isLoading = False, isSaving = False, showAddInput = False, newDomain = [],
      isAdding = False\<rparr>"

subsection \<open>The template: which control reaches which handler\<close>

text \<open>
  \<open>handleRemove\<close> of DomainItem.vue: the \<open>remove\<close> event with the item's address and
  name, unless the item is disabled.
\<close>

definition handleRemove :: "bool \<Rightarrow> jsstring \<Rightarrow> jsstring \<Rightarrow> (jsstring \<times> jsstring) option" where
  "handleRemove disabled i n = (if \<not> disabled then Some (i, n) else None)"

text \<open>
  A click reaches the handler of a button that is rendered (\<open>v-if\<close>) and not disabled
  (\<open>:disabled\<close>); otherwise nothing happens. \<open>disabled\<close> is \<open>props.disabled\<close>.
\<close>

definition click_Add_Domain :: "bool \<Rightarrow> BlockedList \<Rightarrow> BlockedList" where
  "click_Add_Domain disabled s =
     (if \<not> showAddInput s \<and> \<not> disabled then s\<lparr>showAddInput := True\<rparr> else s)"

definition click_Save_Changes ::
  "'b backend \<Rightarrow> bool \<Rightarrow> BlockedList \<times> 'b world \<Rightarrow> BlockedList \<times> 'b world" where
  "click_Save_Changes be disabled = (\<lambda>(s, w).
     if \<not> (isSaving s \<or> disabled) then saveChanges be (s, w) else (s, w))"

definition click_Add ::
  "'b backend \<Rightarrow> bool \<Rightarrow> BlockedList \<times> 'b world \<Rightarrow> BlockedList \<times> 'b world" where
  "click_Add be disabled = (\<lambda>(s, w).
     if showAddInput s \<and> \<not> (isAdding s \<or> trim (newDomain s) = [] \<or> disabled)
     then addDomain be (s, w) else (s, w))"

definition click_Cancel :: "BlockedList \<Rightarrow> BlockedList" where
  "click_Cancel s = (if showAddInput s then s\<lparr>showAddInput := False, newDomain := []\<rparr> else s)"

definition keydown_in_input ::
  "'b backend \<Rightarrow> key \<Rightarrow> BlockedList \<times> 'b world \<Rightarrow> BlockedList \<times> 'b world" where
  "keydown_in_input be e = (\<lambda>(s, w).
     if showAddInput s \<and> \<not> isAdding s then handleAddKeydown be e (s, w) else (s, w))"

text \<open>A click on the Remove button of the \<open>k\<close>-th listed domain.\<close>

definition click_Remove ::
  "'b backend \<Rightarrow> bool \<Rightarrow> nat \<Rightarrow> BlockedList \<times> 'b world \<Rightarrow> BlockedList \<times> 'b world" where
  "click_Remove be disabled k = (\<lambda>(s, w).
     if k < length (blockedDomains s) \<and> \<not> disabled
     then (case handleRemove disabled (ip (blockedDomains s ! k)) (hostname (blockedDomains s ! k)) of
             Some (i, n) \<Rightarrow> removeDomain be i n (s, w)
           | None \<Rightarrow> (s, w))
     else (s, w))"

section \<open>The application shell (src/unnamed/part_001) and its state (state.ts)\<close>

text \<open>
  \<open>hasAdminPrivileges\<close> is \<open>ref<boolean | null>(null)\<close>: \<open>None\<close> until the check has
  answered.
\<close>

record App =
  hasAdminPrivileges :: "bool option"
  showAdminWarning :: bool

definition App_refs :: App where
  "App_refs = \<lparr>hasAdminPrivileges = None, showAdminWarning = True\<rparr>"

text \<open>The privilege check of \<open>onMounted\<close>.\<close>

definition check_privileges :: "'b backend \<Rightarrow> App \<times> 'b world \<Rightarrow> App \<times> 'b world" where
  "check_privileges be = (\<lambda>(a, w).
     let (r, w1) = invoke check_admin_privileges (on_check_admin_privileges be) w
     in case r of
          Inr b \<Rightarrow> (a\<lparr>hasAdminPrivileges := Some b\<rparr>, w1)
        | Inl error \<Rightarrow>
            (a\<lparr>hasAdminPrivileges := Some False\<rparr>,
             emit (Console_error (str ''Failed to check admin privileges:'') error) w1))"

text \<open>The \<open>:disabled\<close> binding of \<open>BlockedList\<close>: \<open>hasAdminPrivileges === false\<close>.\<close>

definition BlockedList_disabled :: "App \<Rightarrow> bool" where
  "BlockedList_disabled a = (hasAdminPrivileges a = Some False)"

text \<open>The warning is shown when \<open>hasAdminPrivileges === false && showAdminWarning\<close>.\<close>

definition warning_shown :: "App \<Rightarrow> bool" where
  "warning_shown a = (hasAdminPrivileges a = Some False \<and> showAdminWarning a)"

section \<open>The theme composable (src/unnamed/part_002)\<close>

text \<open>
  \<open>currentTheme\<close> and the \<open>data-theme\<close> attribute of the document element (\<open>None\<close> while
  it has not been set).
\<close>

record ThemeState =
  currentTheme :: jsstring
  data_theme :: "jsstring option"

definition Theme_refs :: ThemeState where
  "Theme_refs = \<lparr>currentTheme = str ''dark'', data_theme = None\<rparr>"

definition theme_name :: "Theme \<Rightarrow> jsstring" where
  "theme_name t = (case t of dark \<Rightarrow> str ''dark'' | light \<Rightarrow> str ''light'')"

definition setTheme ::
  "'b backend \<Rightarrow> Theme \<Rightarrow> ThemeState \<times> 'b world \<Rightarrow> ThemeState \<times> 'b world" where
  "setTheme be t = (\<lambda>(s, w).
     let configJson = \<lparr>json_host_file_path = None, json_history_dir = None,
                        json_max_history_entries = None, json_theme = Some (theme_name t)\<rparr>;
         (r, w1) = invoke (update_config configJson) (on_update_config be configJson) w
     in case r of
          Inr u \<Rightarrow> (s\<lparr>currentTheme := theme_name t, data_theme := Some (theme_name t)\<rparr>, w1)
        | Inl error \<Rightarrow> (s, emit (Console_error (str ''Failed to update theme:'') error) w1))"

definition toggleTheme :: "'b backend \<Rightarrow> ThemeState \<times> 'b world \<Rightarrow> ThemeState \<times> 'b world" where
  "toggleTheme be = (\<lambda>(s, w).
     setTheme be (if currentTheme s = str ''dark'' then light else dark) (s, w))"

definition loadTheme :: "'b backend \<Rightarrow> ThemeState \<times> 'b world \<Rightarrow> ThemeState \<times> 'b world" where
  "loadTheme be = (\<lambda>(s, w).
     let (r, w1) = invoke get_config (on_get_config be) w
     in case r of
          Inr c \<Rightarrow>
            let t = (if theme c = [] then str ''dark'' else theme c)
            in (s\<lparr>currentTheme := t, data_theme := Some t\<rparr>, w1)
        | Inl error \<Rightarrow>
            (s\<lparr>data_theme := Some (str ''dark'')\<rparr>,
             emit (Console_error (str ''Failed to load theme:'') error) w1))"

section \<open>The settings component (src/src/components/Settings.vue)\<close>

record Settings =
  hostFilePath :: jsstring
  historyDir :: jsstring
  maxHistoryEntries :: number_input
  isLoading :: bool
  isSaving :: bool

definition Settings_refs :: Settings where
  "Settings_refs =
     \<lparr>hostFilePath = [], historyDir = [], maxHistoryEntries = Number 50,
      isLoading = False, isSaving = False\<rparr>"

definition loadSettings :: "'b backend \<Rightarrow> Settings \<times> 'b world \<Rightarrow> Settings \<times> 'b world" where
  "loadSettings be = (\<lambda>(s, w).
     let s1 = s\<lparr>isLoading := True\<rparr>;
         (r, w1) = invoke get_config (on_get_config be) w
     in case r of
          Inr c \<Rightarrow>
            (s1\<lparr>hostFilePath := (case host_file_path c of None \<Rightarrow> [] | Some p \<Rightarrow> p),
                historyDir := (case history_dir c of None \<Rightarrow> [] | Some p \<Rightarrow> p),
                maxHistoryEntries :=
                  (if max_history_entries c = 0 then Number 5 else Number (max_history_entries c)),
                isLoading := False\<rparr>, w1)
        | Inl error \<Rightarrow>
            (s1\<lparr>isLoading := False\<rparr>,
             emit (Toast_error (str ''Failed to load settings'') (Some error))
               (emit (Console_error (str ''Failed to load settings:'') error) w1)))"

text \<open>\<open>saveSettings\<close>; \<open>t\<close> is \<open>theme.value\<close> of the theme composable.\<close>

definition saveSettings ::
  "'b backend \<Rightarrow> jsstring \<Rightarrow> Settings \<times> 'b world \<Rightarrow> Settings \<times> 'b world" where
  "saveSettings be t = (\<lambda>(s, w).
     let s1 = s\<lparr>isSaving := True\<rparr>;
         configJson =
           \<lparr>json_host_file_path = Some (if hostFilePath s1 = [] then None else Some (hostFilePath s1)),
            json_history_dir = Some (if historyDir s1 = [] then None else Some (historyDir s1)),
            json_max_history_entries = Some (maxHistoryEntries s1),
            json_theme = Some t\<rparr>;
         (r, w1) = invoke (update_config configJson) (on_update_config be configJson) w
     in case r of
          Inr u \<Rightarrow>
            (s1\<lparr>isSaving := False\<rparr>,
             emit (Toast_success (str ''Settings saved successfully!'') None) w1)
        | Inl error \<Rightarrow>
            (s1\<lparr>isSaving := False\<rparr>,
             emit (Toast_error (str ''Failed to save settings'') (Some error))
               (emit (Console_error (str ''Failed to save settings:'') error) w1)))"

definition getDefaultHostPath :: "'b backend \<Rightarrow> 'b world \<Rightarrow> jsstring \<times> 'b world" where
  "getDefaultHostPath be w =
     (let (r, w1) = invoke get_host_file_path (on_get_host_file_path be) w
      in case r of
           Inr p \<Rightarrow> (p, w1)
         | Inl error \<Rightarrow> ([], emit (Console_error (str ''Failed to get default host path:'') error) w1))"

definition Settings_onMounted :: "'b backend \<Rightarrow> Settings \<times> 'b world \<Rightarrow> Settings \<times> 'b world" where
  "Settings_onMounted be = (\<lambda>(s, w).
     let (s1, w1) = loadSettings be (s, w)
     in if hostFilePath s1 = []
        then (let (p, w2) = getDefaultHostPath be w1 in (s1\<lparr>hostFilePath := p\<rparr>, w2))
        else (s1, w1))"


section \<open>Well-formed domain names\<close>

text \<open>The strings a regular expression denotes.\<close>

primrec lang :: "regex \<Rightarrow> jsstring set" where
  "lang (Between a b) = {[c] | c. a \<le> c \<and> c \<le> b}"
| "lang (Alt r1 r2) = lang r1 \<union> lang r2"
| "lang (Seq r1 r2) = {u @ v | u v. u \<in> lang r1 \<and> v \<in> lang r2}"
| "lang (Opt r) = insert [] (lang r)"
| "lang (Star r) = {concat ws | ws. set ws \<subseteq> lang r}"
| "lang (Upto r n) = {concat ws | ws. set ws \<subseteq> lang r \<and> length ws \<le> n}"

text \<open>
  A domain name as the specification words it: labels separated by dots, each of 1 to 63
  characters that are alphanumeric (ASCII letters and digits) or hyphens (code unit 45),
  neither starting nor ending with a hyphen.
\<close>

definition is_alphanumeric :: "nat \<Rightarrow> bool" where
  "is_alphanumeric c = ((97 \<le> c \<and> c \<le> 122) \<or> (65 \<le> c \<and> c \<le> 90) \<or> (48 \<le> c \<and> c \<le> 57))"

definition valid_label :: "jsstring \<Rightarrow> bool" where
  "valid_label l =
     (1 \<le> length l \<and> length l \<le> 63 \<and> list_all (\<lambda>c. is_alphanumeric c \<or> c = 45) l
      \<and> hd l \<noteq> 45 \<and> last l \<noteq> 45)"

fun labels :: "jsstring \<Rightarrow> jsstring list" where
  "labels [] = [[]]"
| "labels (c # cs) =
     (if c = 46 then [] # labels cs
      else (case labels cs of [] \<Rightarrow> [[c]] | l # ls \<Rightarrow> (c # l) # ls))"

definition well_formed_domain :: "jsstring \<Rightarrow> bool" where
  "well_formed_domain s = list_all valid_label (labels s)"

section \<open>Invariants of the history component between two events\<close>

text \<open>
  The keys of the checked-state map are unique and are the file names of the listed
  entries, which are unique too.
\<close>

definition checked_ok :: "History \<Rightarrow> bool" where
  "checked_ok h =
     (distinct (map fst (entryCheckedStates h)) \<and>
      set (map fst (entryCheckedStates h)) = set (map filename (historyEntries h)) \<and>
      distinct (map filename (historyEntries h)))"

text \<open>
  The state as \<open>updateSelectedEntries\<close> leaves it: the selected entries are the keys whose
  value is true, in the order of the map, and select-all compares the two lengths.
\<close>

definition consistent :: "History \<Rightarrow> bool" where
  "consistent h =
     (selectedEntries h = map fst (filter snd (entryCheckedStates h)) \<and>
      selectAllChecked h =
        (historyEntries h \<noteq> [] \<and> length (selectedEntries h) = length (historyEntries h)))"

text \<open>
  The watcher of \<open>selectAllChecked\<close> has seen the current value, or is queued to see it.
\<close>

definition watch_ok :: "History \<Rightarrow> bool" where
  "watch_ok h =
     (Watch_selectAllChecked \<in> set (jobs h) \<or> seen_selectAllChecked h = selectAllChecked h)"

text \<open>
  A state whose queued watchers will find nothing left to change, and a state with no
  watcher queued at all.
\<close>

definition stable :: "History \<Rightarrow> bool" where
  "stable h =
     (Watch_historyEntries \<notin> set (jobs h) \<and> watch_ok h \<and> checked_ok h \<and> consistent h)"

definition at_rest :: "History \<Rightarrow> bool" where
  "at_rest h = (jobs h = [] \<and> stable h)"

text \<open>
  The measure under which the flush of a stable state ends: every round takes more weight
  off the queue than it puts back.
\<close>

fun job_weight :: "watcher \<Rightarrow> nat" where
  "job_weight Watch_selectAllChecked = 2"
| "job_weight Watch_entryCheckedStates = 1"
| "job_weight Watch_historyEntries = 4"

definition pending :: "History \<Rightarrow> nat" where
  "pending h = sum_list (map job_weight (jobs h))"

text \<open>
  What writes to the checked-state map leave untouched: the list, select-all and what its
  watcher has seen, and the queue, but for the deep watcher that they may append.
\<close>

definition touched :: "History \<Rightarrow> History \<Rightarrow> bool" where
  "touched h h' =
     (historyEntries h' = historyEntries h \<and>
      selectAllChecked h' = selectAllChecked h \<and>
      seen_selectAllChecked h' = seen_selectAllChecked h \<and>
      (jobs h' = jobs h \<or>
       (Watch_entryCheckedStates \<notin> set (jobs h) \<and> jobs h' = jobs h @ [Watch_entryCheckedStates])))"

section \<open>The hosts-file grammar (specification, section 4.1)\<close>

text \<open>
  Modelled from the spec: the Line Record, a tagged union of the three shapes of a
  physical line. The sources of the Grammar Parser are not in the repository. A blank
  line keeps its whitespace; a comment line its leading whitespace and its text from the
  \<open>#\<close> on; a mapping line its leading whitespace, the address token, every host name with
  the whitespace before it, the trailing whitespace and the trailing comment, if any.
\<close>

datatype Line_Record =
    Blank string
  | Comment string string
  | Mapping string string "(string \<times> string) list" string "string option"

text \<open>
  Modelled from the spec: a ParseError carries the number of the line and the offending
  text.
\<close>

datatype ParseError = ParseError nat string

text \<open>
  Modelled from the spec: whitespace inside a line, and the characters of a token (an
  address or a host name), which are neither whitespace nor the \<open>#\<close> that opens a comment.
\<close>

definition is_space :: "char \<Rightarrow> bool" where
  "is_space c = (c \<in> set [CHR '' '', CHR 0x09, CHR 0x0A, CHR 0x0B, CHR 0x0C, CHR 0x0D])"

definition is_token :: "char \<Rightarrow> bool" where
  "is_token c = (\<not> is_space c \<and> c \<noteq> CHR ''#'')"

text \<open>
  Modelled from the spec: the whitespace-separated host-name tokens that follow the
  address, then the trailing whitespace and the optional trailing comment.
\<close>

function hostname_tokens :: "string \<Rightarrow> (string \<times> string) list \<times> string \<times> string option" where
  "hostname_tokens s =
     (let separator = takeWhile is_space s;
          r = dropWhile is_space s;
          hostname = takeWhile is_token r
      in if hostname = [] then ([], separator, if r = [] then None else Some r)
         else case hostname_tokens (dropWhile is_token r) of
                (hs, trailing, comment) \<Rightarrow> ((separator, hostname) # hs, trailing, comment))"
  by pat_completeness auto

termination hostname_tokens
proof (relation "measure length", goal_cases)
  case 1
  show ?case by simp
next
  case (2 s separator r hostname)
  from 2 have token: "takeWhile is_token r \<noteq> []" by simp
  have "length (dropWhile is_token r) < length r"
  proof (cases r)
    case Nil
    with token show ?thesis by simp
  next
    case (Cons c cs)
    with token have "is_token c" by (auto split: if_splits)
    with Cons show ?thesis by (simp add: le_imp_less_Suc length_dropWhile_le)
  qed
  also have "length r \<le> length s"
    using 2 by (simp add: length_dropWhile_le)
  finally show ?case by simp
qed

declare hostname_tokens.simps [simp del]

text \<open>
  Modelled from the spec: a line is blank, a comment, or a mapping of one address token
  and one or more host names; a line that matches none of the three is refused.
\<close>

definition parse_line :: "string \<Rightarrow> Line_Record option" where
  "parse_line l =
     (let leading = takeWhile is_space l;
          r = dropWhile is_space l
      in if r = [] then Some (Blank leading)
         else if hd r = CHR ''#'' then Some (Comment leading r)
         else case hostname_tokens (dropWhile is_token r) of
                (hs, trailing, comment) \<Rightarrow>
                  if hs = [] then None
                  else Some (Mapping leading (takeWhile is_token r) hs trailing comment))"

text \<open>
  Modelled from the spec: the physical lines of a text, the pieces between its line
  feeds. A text that ends in a line feed has an empty last piece.
\<close>

definition push_char :: "char \<Rightarrow> string list \<Rightarrow> string list" where
  "push_char c ls = (if c = CHR 0x0A then [] # ls else (c # hd ls) # tl ls)"

fun split_lines :: "string \<Rightarrow> string list" where
  "split_lines [] = [[]]"
| "split_lines (c # cs) = push_char c (split_lines cs)"

text \<open>
  Modelled from the spec: \<open>parse(text)\<close> gives the ordered sequence of Line Records, or the
  ParseError of the first line that matches no shape, lines counted from 1.
\<close>

fun parse_lines :: "nat \<Rightarrow> string list \<Rightarrow> ParseError + Line_Record list" where
  "parse_lines n [] = Inr []"
| "parse_lines n (l # ls) =
     (case parse_line l of
        None \<Rightarrow> Inl (ParseError n l)
      | Some r \<Rightarrow> (case parse_lines (Suc n) ls of
                     Inl e \<Rightarrow> Inl e
                   | Inr rs \<Rightarrow> Inr (r # rs)))"

definition parse :: "string \<Rightarrow> ParseError + Line_Record list" where
  "parse text = parse_lines 1 (split_lines text)"

text \<open>
  Modelled from the spec: \<open>serialize\<close> writes every record with the formatting it kept,
  and a line feed between two records.
\<close>

fun serialize_line :: "Line_Record \<Rightarrow> string" where
  "serialize_line (Blank leading) = leading"
| "serialize_line (Comment leading comment) = leading @ comment"
| "serialize_line (Mapping leading address hs trailing comment) =
     leading @ address @ concat (map (\<lambda>(separator, hostname). separator @ hostname) hs)
       @ trailing @ (case comment of None \<Rightarrow> [] | Some c \<Rightarrow> c)"

fun join_lines :: "string list \<Rightarrow> string" where
  "join_lines [] = []"
| "join_lines [l] = l"
| "join_lines (l # l' # ls) = l @ CHR 0x0A # join_lines (l' # ls)"

definition serialize :: "Line_Record list \<Rightarrow> string" where
  "serialize rs = join_lines (map serialize_line rs)"

text \<open>
  Modelled from the spec: a hosts file with a mapping, a comment, a blank line, a mapping
  of two host names with a trailing comment, and a final line feed.
\<close>

definition hosts_example :: string where
  "hosts_example = join_lines
     [''127.0.0.1 localhost'',
      ''# blocked hosts'',
      '''',
      ''  0.0.0.0  ads.example.com tracker.example.com # ads'',
      '''']"

section \<open>Verified properties\<close>

subsection \<open>String literals\<close>

lemma str_inject [simp]: "str a = str b \<longleftrightarrow> a = b"
  by (simp add: str_def inj_map_eq_map inj_on_def)

lemma str_Nil [simp]: "str a = [] \<longleftrightarrow> a = []" "[] = str a \<longleftrightarrow> a = []"
  by (auto simp: str_def)

subsection \<open>The reference backend, command by command\<close>

lemma reference_backend_simps [simp]:
  "on_get_blocked_domains reference_backend s = (Inr (new_Set (records s)), s)"
  "on_add_domain reference_backend i n s =
     (Inr (), if (i, n) \<in> set (records s) then s else s\<lparr>records := records s @ [(i, n)]\<rparr>)"
  "on_remove_domain reference_backend i n s =
     (if (i, n) \<in> set (records s) then (Inr (), s\<lparr>records := remove1 (i, n) (records s)\<rparr>)
      else (Inl (str ''NotFoundError''), s))"
  "on_save_changes reference_backend s =
     (if privileged s then Inr () else Inl (str ''PrivilegeError''), s)"
  "on_get_history_list reference_backend s = (Inr (history_index s), s)"
  "on_rollback_to reference_backend f s =
     (if f \<notin> set (map filename (history_index s)) then Inl (str ''NotFoundError'')
      else if privileged s then Inr () else Inl (str ''PrivilegeError''), s)"
  "on_delete_history_files reference_backend fs s =
     (case history_delete fs (history_index s) of (ds, i) \<Rightarrow> (Inr ds, s\<lparr>history_index := i\<rparr>))"
  "on_get_config reference_backend s = (Inr (configuration s), s)"
  "on_update_config reference_backend u s =
     (case config_update u (configuration s) of
        Inr c \<Rightarrow> (Inr (), s\<lparr>configuration := c\<rparr>)
      | Inl e \<Rightarrow> (Inl e, s))"
  "on_check_admin_privileges reference_backend s = (Inr (privileged s), s)"
  by (simp_all add: reference_backend_def)

lemma reference_backend_statistics [simp]:
  "on_get_statistics reference_backend s =
     (Inr \<lparr>total_blocked = int (length (filter (\<lambda>d. is_block_address (fst d)) (records s))),
           unique_ips = int (length (new_Set (map fst
                          (filter (\<lambda>d. is_block_address (fst d)) (records s)))))\<rparr>, s)"
  by (simp add: reference_backend_def)

lemma rejecting_backend_simps [simp]:
  "on_get_blocked_domains (rejecting_backend e) s = (Inl e, s)"
  "on_get_statistics (rejecting_backend e) s = (Inl e, s)"
  "on_add_domain (rejecting_backend e) i n s = (Inl e, s)"
  "on_remove_domain (rejecting_backend e) i n s = (Inl e, s)"
  "on_save_changes (rejecting_backend e) s = (Inl e, s)"
  "on_get_history_list (rejecting_backend e) s = (Inl e, s)"
  "on_rollback_to (rejecting_backend e) f s = (Inl e, s)"
  "on_delete_history_files (rejecting_backend e) fs s = (Inl e, s)"
  "on_get_config (rejecting_backend e) s = (Inl e, s)"
  "on_update_config (rejecting_backend e) u s = (Inl e, s)"
  "on_get_host_file_path (rejecting_backend e) s = (Inl e, s)"
  "on_check_admin_privileges (rejecting_backend e) s = (Inl e, s)"
  by (simp_all add: rejecting_backend_def)


subsection \<open>Confirmation before the destructive history operations\<close>

lemma invocations_append: "invocations (xs @ ys) = invocations xs @ invocations ys"
  by (induction xs rule: invocations.induct) simp_all

lemma loadHistory_world:
  "snd (loadHistory be (h, w)) =
     (case on_get_history_list be (fst w) of
        (Inr entries, b) \<Rightarrow> (b, snd w @ [Invoke get_history_list])
      | (Inl error, b) \<Rightarrow>
          (b, snd w @ [Invoke get_history_list,
                Console_error (str ''Failed to load history:'') error,
                Toast_error (str ''Failed to load history'') (Some error)]))"
  by (simp add: loadHistory_def invoke_def emit_def split: prod.splits sum.splits)

lemma loadHistory_invocations:
  "invocations (snd (snd (loadHistory be (h, w)))) = invocations (snd w) @ [get_history_list]"
  by (simp add: loadHistory_world invocations_append split: prod.splits sum.splits)

lemma rollbackTo_declined:
  "\<not> confirm (rollback_question fname) \<Longrightarrow>
     rollbackTo be confirm fname (h, w) = (h, fst w, snd w @ [Confirm (rollback_question fname)])"
  by (simp add: rollbackTo_def emit_def Let_def)

lemma rollbackTo_invocations:
  "invocations (snd (snd (rollbackTo be confirm fname (h, w)))) =
     invocations (snd w) @
       (if confirm (rollback_question fname)
        then rollback_to fname #
               (case fst (on_rollback_to be fname (fst w)) of
                  Inr u \<Rightarrow> [get_history_list] | Inl error \<Rightarrow> [])
        else [])"
  by (simp add: rollbackTo_def emit_def invoke_def Let_def
      loadHistory_invocations invocations_append case_prod_beta split: sum.splits)

lemma deleteSelected_empty:
  "selectedEntries h = [] \<Longrightarrow>
     deleteSelected be confirm (h, w) =
       (h, fst w, snd w @ [Toast_error (str ''No entries selected'') None])"
  by (simp add: deleteSelected_def emit_def)

lemma deleteSelected_declined:
  "selectedEntries h \<noteq> [] \<Longrightarrow> \<not> confirm (delete_question (length (selectedEntries h))) \<Longrightarrow>
     deleteSelected be confirm (h, w) =
       (h, fst w, snd w @ [Confirm (delete_question (length (selectedEntries h)))])"
  by (simp add: deleteSelected_def emit_def Let_def)

lemma deleteSelected_invocations:
  "invocations (snd (snd (deleteSelected be confirm (h, w)))) =
     invocations (snd w) @
       (if selectedEntries h \<noteq> [] \<and> confirm (delete_question (length (selectedEntries h)))
        then delete_history_files (selectedEntries h) #
               (case fst (on_delete_history_files be (selectedEntries h) (fst w)) of
                  Inr u \<Rightarrow> [get_history_list] | Inl error \<Rightarrow> [])
        else [])"
  by (simp add: deleteSelected_def emit_def invoke_def Let_def
      loadHistory_invocations invocations_append case_prod_beta split: sum.splits)



text \<open>
  Claim C10. The destructive history operations are never invoked without the user's
  confirmation. \<open>rollbackTo\<close> first shows the confirmation dialog for the file; the
  \<open>rollback_to\<close> invocation for that file (followed by the reload of the list when it
  succeeded) happens exactly when the dialog answered true, and a declined dialog leaves
  the component and the backend as they were. \<open>deleteSelected\<close> invokes
  \<open>delete_history_files\<close>, with the selected file names, exactly when the selection is not
  empty and its dialog answered true; with an empty selection it only shows a toast, and
  with a declined dialog nothing is invoked and nothing changes.
\<close>

theorem destructive_operations_need_confirmation:
  "(let r = rollbackTo be confirm fname (h, w); q = rollback_question fname in
      take (Suc (length (snd w))) (snd (snd r)) = snd w @ [Confirm q] \<and>
      invocations (snd (snd r)) =
        invocations (snd w) @
          (if confirm q
           then rollback_to fname #
                  (case fst (on_rollback_to be fname (fst w)) of
                     Inr u \<Rightarrow> [get_history_list] | Inl error \<Rightarrow> [])
           else []) \<and>
      (\<not> confirm q \<longrightarrow> r = (h, fst w, snd w @ [Confirm q]))) \<and>
   (let d = deleteSelected be confirm (h, w); q = delete_question (length (selectedEntries h)) in
      invocations (snd (snd d)) =
        invocations (snd w) @
          (if selectedEntries h \<noteq> [] \<and> confirm q
           then delete_history_files (selectedEntries h) #
                  (case fst (on_delete_history_files be (selectedEntries h) (fst w)) of
                     Inr u \<Rightarrow> [get_history_list] | Inl error \<Rightarrow> [])
           else []) \<and>
      (selectedEntries h = [] \<longrightarrow>
         d = (h, fst w, snd w @ [Toast_error (str ''No entries selected'') None])) \<and>
      (selectedEntries h \<noteq> [] \<longrightarrow>
         take (Suc (length (snd w))) (snd (snd d)) = snd w @ [Confirm q]) \<and>
      (selectedEntries h \<noteq> [] \<and> \<not> confirm q \<longrightarrow> d = (h, fst w, snd w @ [Confirm q])))"
proof -
  have r1: "take (Suc (length (snd w))) (snd (snd (rollbackTo be confirm fname (h, w)))) =
              snd w @ [Confirm (rollback_question fname)]"
    by (simp add: rollbackTo_def emit_def invoke_def Let_def
        loadHistory_world case_prod_beta split: sum.splits prod.splits)
  have d1: "selectedEntries h \<noteq> [] \<Longrightarrow>
      take (Suc (length (snd w))) (snd (snd (deleteSelected be confirm (h, w)))) =
        snd w @ [Confirm (delete_question (length (selectedEntries h)))]"
    by (simp add: deleteSelected_def emit_def invoke_def Let_def
        loadHistory_world case_prod_beta split: sum.splits prod.splits)
  show ?thesis
    unfolding Let_def
    using r1 d1 rollbackTo_declined [of confirm fname be h w]
      rollbackTo_invocations [of be confirm fname h w]
      deleteSelected_invocations [of be confirm h w]
      deleteSelected_empty [of h be confirm w]
      deleteSelected_declined [of h confirm be w]
    by simp
qed

theorem destructive_operations_need_confirmation_witness:
  "rollbackTo reference_backend (\<lambda>m. False) (str ''hosts_1'') (History_refs, example_store, []) =
     (History_refs, example_store, [Confirm (rollback_question (str ''hosts_1''))]) \<and>
   invocations (snd (snd (deleteSelected reference_backend (\<lambda>m. True)
     (History_refs\<lparr>selectedEntries := [str ''hosts_1'']\<rparr>, example_store, [])))) =
     [delete_history_files [str ''hosts_1''], get_history_list]"
  using destructive_operations_need_confirmation
    [of reference_backend "\<lambda>m. False" "str ''hosts_1''" History_refs "(example_store, [])"]
    destructive_operations_need_confirmation
    [of reference_backend "\<lambda>m. True" "str ''hosts_1''"
        "History_refs\<lparr>selectedEntries := [str ''hosts_1'']\<rparr>" "(example_store, [])"]
  by (simp add: Let_def example_store_def snapshot_def history_delete_one_def split: prod.splits)

subsection \<open>The matcher and the language of the domain pattern\<close>

lemma concat_nonempty_words:
  "\<exists>vs. concat vs = concat ws \<and> set vs \<subseteq> set ws \<and> [] \<notin> set vs"
proof (induction ws)
  case Nil
  have "concat [] = concat ([] :: 'a list list) \<and> set [] \<subseteq> set ([] :: 'a list list) \<and> [] \<notin> set ([] :: 'a list list)"
    by simp
  then show ?case by blast
next
  case (Cons w ws)
  then obtain vs where vs: "concat vs = concat ws" "set vs \<subseteq> set ws" "[] \<notin> set vs" by blast
  show ?case
  proof (cases "w = []")
    case True
    with vs have "concat vs = concat (w # ws) \<and> set vs \<subseteq> set (w # ws) \<and> [] \<notin> set vs" by auto
    then show ?thesis by blast
  next
    case False
    with vs have "concat (w # vs) = concat (w # ws) \<and> set (w # vs) \<subseteq> set (w # ws) \<and> [] \<notin> set (w # vs)"
      by auto
    then show ?thesis by blast
  qed
qed

lemma star_unfold:
  "(\<exists>ws. set ws \<subseteq> L \<and> s = concat ws @ t) \<longleftrightarrow>
     t = s \<or> (\<exists>u ws. u \<in> L \<and> u \<noteq> [] \<and> set ws \<subseteq> L \<and> s = u @ concat ws @ t)"
  (is "?A \<longleftrightarrow> t = s \<or> ?B")
proof
  assume ?A
  then obtain ws where ws: "set ws \<subseteq> L" "s = concat ws @ t" by blast
  obtain vs where vs: "concat vs = concat ws" "set vs \<subseteq> set ws" "[] \<notin> set vs"
    using concat_nonempty_words by blast
  show "t = s \<or> ?B"
  proof (cases vs)
    case Nil
    with vs ws show ?thesis by simp
  next
    case (Cons u us)
    with vs ws have "u \<in> L \<and> u \<noteq> [] \<and> set us \<subseteq> L \<and> s = u @ concat us @ t" by auto
    then show ?thesis by blast
  qed
next
  assume "t = s \<or> ?B"
  then show ?A
  proof
    assume "t = s"
    then have "set [] \<subseteq> L \<and> s = concat [] @ t" by simp
    then show ?thesis by blast
  next
    assume ?B
    then obtain u ws where "u \<in> L" "set ws \<subseteq> L" "s = u @ concat ws @ t" by blast
    then have "set (u # ws) \<subseteq> L \<and> s = concat (u # ws) @ t" by simp
    then show ?thesis by blast
  qed
qed

lemma upto_unfold:
  assumes n: "0 < n"
  shows "(\<exists>ws. set ws \<subseteq> L \<and> length ws \<le> n \<and> s = concat ws @ t) \<longleftrightarrow>
     t = s \<or> (\<exists>u ws. u \<in> L \<and> set ws \<subseteq> L \<and> length ws \<le> n - 1 \<and> s = u @ concat ws @ t)"
  (is "?A \<longleftrightarrow> t = s \<or> ?B")
proof
  assume ?A
  then obtain ws where ws: "set ws \<subseteq> L" "length ws \<le> n" "s = concat ws @ t" by blast
  show "t = s \<or> ?B"
  proof (cases ws)
    case Nil
    with ws show ?thesis by simp
  next
    case (Cons u us)
    with ws have "u \<in> L \<and> set us \<subseteq> L \<and> length us \<le> n - 1 \<and> s = u @ concat us @ t" by auto
    then show ?thesis by blast
  qed
next
  assume "t = s \<or> ?B"
  then show ?A
  proof
    assume "t = s"
    then have "set [] \<subseteq> L \<and> length ([] :: 'a list list) \<le> n \<and> s = concat [] @ t" by simp
    then show ?thesis by blast
  next
    assume ?B
    then obtain u ws where "u \<in> L" "set ws \<subseteq> L" "length ws \<le> n - 1" "s = u @ concat ws @ t"
      by blast
    with n have "set (u # ws) \<subseteq> L \<and> length (u # ws) \<le> n \<and> s = concat (u # ws) @ t" by auto
    then show ?thesis by blast
  qed
qed


lemma rest_lang: "t \<in> set (rest r s) \<longleftrightarrow> (\<exists>u. u \<in> lang r \<and> s = u @ t)"
proof (induction r s arbitrary: t rule: rest.induct)
  case (1 a b s)
  show ?case by (cases s) auto
next
  case (2 r1 r2 s)
  have "t \<in> set (rest (Alt r1 r2) s) \<longleftrightarrow> t \<in> set (rest r1 s) \<or> t \<in> set (rest r2 s)" by simp
  also have "\<dots> \<longleftrightarrow> (\<exists>u. u \<in> lang r1 \<and> s = u @ t) \<or> (\<exists>u. u \<in> lang r2 \<and> s = u @ t)"
    by (simp only: 2)
  also have "\<dots> \<longleftrightarrow> (\<exists>u. u \<in> lang (Alt r1 r2) \<and> s = u @ t)" by auto
  finally show ?case .
next
  case (3 r1 r2 s)
  have "t \<in> set (rest (Seq r1 r2) s) \<longleftrightarrow> (\<exists>x \<in> set (rest r1 s). t \<in> set (rest r2 x))" by simp
  also have "\<dots> \<longleftrightarrow> (\<exists>x. (\<exists>u. u \<in> lang r1 \<and> s = u @ x) \<and> (\<exists>v. v \<in> lang r2 \<and> x = v @ t))"
    using 3 by (metis (no_types, lifting))
  also have "\<dots> \<longleftrightarrow> (\<exists>w. w \<in> lang (Seq r1 r2) \<and> s = w @ t)"
  proof
    assume "\<exists>x. (\<exists>u. u \<in> lang r1 \<and> s = u @ x) \<and> (\<exists>v. v \<in> lang r2 \<and> x = v @ t)"
    then obtain u v where "u \<in> lang r1" "v \<in> lang r2" "s = u @ v @ t" by blast
    then have "u @ v \<in> lang (Seq r1 r2) \<and> s = (u @ v) @ t" by auto
    then show "\<exists>w. w \<in> lang (Seq r1 r2) \<and> s = w @ t" by blast
  next
    assume "\<exists>w. w \<in> lang (Seq r1 r2) \<and> s = w @ t"
    then obtain u v where "u \<in> lang r1" "v \<in> lang r2" "s = (u @ v) @ t" by auto
    then have "(\<exists>u. u \<in> lang r1 \<and> s = u @ (v @ t)) \<and> (\<exists>w. w \<in> lang r2 \<and> v @ t = w @ t)" by auto
    then show "\<exists>x. (\<exists>u. u \<in> lang r1 \<and> s = u @ x) \<and> (\<exists>v. v \<in> lang r2 \<and> x = v @ t)" by blast
  qed
  finally show ?case .
next
  case (4 r s)
  have "t \<in> set (rest (Opt r) s) \<longleftrightarrow> t \<in> set (rest r s) \<or> t = s" by auto
  also have "\<dots> \<longleftrightarrow> (\<exists>u. u \<in> lang r \<and> s = u @ t) \<or> t = s" by (simp only: 4)
  also have "\<dots> \<longleftrightarrow> (\<exists>u. u \<in> lang (Opt r) \<and> s = u @ t)" by auto
  finally show ?case .
next
  case (5 r s)
  have "t \<in> set (rest (Star r) s) \<longleftrightarrow>
      t = s \<or> (\<exists>x \<in> set (rest r s). length x < length s \<and> t \<in> set (rest (Star r) x))"
    by (subst rest.simps(5)) auto
  also have "\<dots> \<longleftrightarrow>
      t = s \<or> (\<exists>x. (\<exists>u. u \<in> lang r \<and> s = u @ x) \<and> length x < length s
                \<and> (\<exists>v. v \<in> lang (Star r) \<and> x = v @ t))"
  proof -
    have "(\<exists>x \<in> set (rest r s). length x < length s \<and> t \<in> set (rest (Star r) x)) \<longleftrightarrow>
          (\<exists>x. (\<exists>u. u \<in> lang r \<and> s = u @ x) \<and> length x < length s
                \<and> (\<exists>v. v \<in> lang (Star r) \<and> x = v @ t))"
    proof
      assume "\<exists>x \<in> set (rest r s). length x < length s \<and> t \<in> set (rest (Star r) x)"
      then obtain x where x: "x \<in> set (rest r s)" "length x < length s"
        "t \<in> set (rest (Star r) x)" by blast
      from x(1) have a: "\<exists>u. u \<in> lang r \<and> s = u @ x" by (simp only: 5(1))
      from x(1) x(2) have "x \<in> set (filter (\<lambda>t. length t < length s) (rest r s))" by simp
      from 5(2) [OF this] x(3) have b: "\<exists>v. v \<in> lang (Star r) \<and> x = v @ t" by blast
      from a b x(2) show "\<exists>x. (\<exists>u. u \<in> lang r \<and> s = u @ x) \<and> length x < length s
                \<and> (\<exists>v. v \<in> lang (Star r) \<and> x = v @ t)" by blast
    next
      assume "\<exists>x. (\<exists>u. u \<in> lang r \<and> s = u @ x) \<and> length x < length s
                \<and> (\<exists>v. v \<in> lang (Star r) \<and> x = v @ t)"
      then obtain x where x: "\<exists>u. u \<in> lang r \<and> s = u @ x" "length x < length s"
        "\<exists>v. v \<in> lang (Star r) \<and> x = v @ t" by blast
      from x(1) have a: "x \<in> set (rest r s)" by (simp only: 5(1))
      with x(2) have "x \<in> set (filter (\<lambda>t. length t < length s) (rest r s))" by simp
      from 5(2) [OF this] x(3) have "t \<in> set (rest (Star r) x)" by blast
      with a x(2) show "\<exists>x \<in> set (rest r s). length x < length s \<and> t \<in> set (rest (Star r) x)"
        by blast
    qed
    then show ?thesis by simp
  qed
  also have "\<dots> \<longleftrightarrow>
      t = s \<or> (\<exists>u ws. u \<in> lang r \<and> u \<noteq> [] \<and> set ws \<subseteq> lang r \<and> s = u @ concat ws @ t)"
  proof -
    have "(\<exists>x. (\<exists>u. u \<in> lang r \<and> s = u @ x) \<and> length x < length s
                \<and> (\<exists>v. v \<in> lang (Star r) \<and> x = v @ t)) \<longleftrightarrow>
          (\<exists>u ws. u \<in> lang r \<and> u \<noteq> [] \<and> set ws \<subseteq> lang r \<and> s = u @ concat ws @ t)"
    proof
      assume "\<exists>x. (\<exists>u. u \<in> lang r \<and> s = u @ x) \<and> length x < length s
                \<and> (\<exists>v. v \<in> lang (Star r) \<and> x = v @ t)"
      then obtain x u v where x: "u \<in> lang r" "s = u @ x" "length x < length s"
        "v \<in> lang (Star r)" "x = v @ t" by blast
      from x(4) obtain ws where "set ws \<subseteq> lang r" "v = concat ws" by auto
      with x have "u \<in> lang r \<and> u \<noteq> [] \<and> set ws \<subseteq> lang r \<and> s = u @ concat ws @ t" by auto
      then show "\<exists>u ws. u \<in> lang r \<and> u \<noteq> [] \<and> set ws \<subseteq> lang r \<and> s = u @ concat ws @ t" by blast
    next
      assume "\<exists>u ws. u \<in> lang r \<and> u \<noteq> [] \<and> set ws \<subseteq> lang r \<and> s = u @ concat ws @ t"
      then obtain u ws where x: "u \<in> lang r" "u \<noteq> []" "set ws \<subseteq> lang r" "s = u @ concat ws @ t"
        by blast
      then have "(\<exists>u'. u' \<in> lang r \<and> s = u' @ (concat ws @ t)) \<and> length (concat ws @ t) < length s
          \<and> (\<exists>v. v \<in> lang (Star r) \<and> concat ws @ t = v @ t)"
        by auto
      then show "\<exists>x. (\<exists>u. u \<in> lang r \<and> s = u @ x) \<and> length x < length s
                \<and> (\<exists>v. v \<in> lang (Star r) \<and> x = v @ t)" by blast
    qed
    then show ?thesis by simp
  qed
  also have "\<dots> \<longleftrightarrow> (\<exists>ws. set ws \<subseteq> lang r \<and> s = concat ws @ t)"
    by (rule star_unfold [symmetric])
  also have "\<dots> \<longleftrightarrow> (\<exists>u. u \<in> lang (Star r) \<and> s = u @ t)" by auto
  finally show ?case .
next
  case (6 r n s)
  show ?case
  proof (cases "n = 0")
    case True
    then show ?thesis by (subst rest.simps(6)) auto
  next
    case False
    have "t \<in> set (rest (Upto r n) s) \<longleftrightarrow>
        t = s \<or> (\<exists>x \<in> set (rest r s). t \<in> set (rest (Upto r (n - 1)) x))"
      using False by (subst rest.simps(6)) auto
    also have "\<dots> \<longleftrightarrow>
        t = s \<or> (\<exists>x. (\<exists>u. u \<in> lang r \<and> s = u @ x)
                  \<and> (\<exists>v. v \<in> lang (Upto r (n - 1)) \<and> x = v @ t))"
      using 6 [OF False] by (metis (no_types, lifting))
    also have "\<dots> \<longleftrightarrow>
        t = s \<or> (\<exists>u ws. u \<in> lang r \<and> set ws \<subseteq> lang r \<and> length ws \<le> n - 1
                   \<and> s = u @ concat ws @ t)"
    proof -
      have "(\<exists>x. (\<exists>u. u \<in> lang r \<and> s = u @ x)
                  \<and> (\<exists>v. v \<in> lang (Upto r (n - 1)) \<and> x = v @ t)) \<longleftrightarrow>
            (\<exists>u ws. u \<in> lang r \<and> set ws \<subseteq> lang r \<and> length ws \<le> n - 1
                   \<and> s = u @ concat ws @ t)"
      proof
        assume "\<exists>x. (\<exists>u. u \<in> lang r \<and> s = u @ x)
                  \<and> (\<exists>v. v \<in> lang (Upto r (n - 1)) \<and> x = v @ t)"
        then obtain x u v where x: "u \<in> lang r" "s = u @ x"
          "v \<in> lang (Upto r (n - 1))" "x = v @ t" by blast
        from x(3) obtain ws where "set ws \<subseteq> lang r" "length ws \<le> n - 1" "v = concat ws" by auto
        with x have "u \<in> lang r \<and> set ws \<subseteq> lang r \<and> length ws \<le> n - 1 \<and> s = u @ concat ws @ t"
          by auto
        then show "\<exists>u ws. u \<in> lang r \<and> set ws \<subseteq> lang r \<and> length ws \<le> n - 1
                   \<and> s = u @ concat ws @ t" by blast
      next
        assume "\<exists>u ws. u \<in> lang r \<and> set ws \<subseteq> lang r \<and> length ws \<le> n - 1
                   \<and> s = u @ concat ws @ t"
        then obtain u ws where x: "u \<in> lang r" "set ws \<subseteq> lang r" "length ws \<le> n - 1"
          "s = u @ concat ws @ t" by blast
        then have "(\<exists>u'. u' \<in> lang r \<and> s = u' @ (concat ws @ t))
            \<and> (\<exists>v. v \<in> lang (Upto r (n - 1)) \<and> concat ws @ t = v @ t)"
          by auto
        then show "\<exists>x. (\<exists>u. u \<in> lang r \<and> s = u @ x)
                  \<and> (\<exists>v. v \<in> lang (Upto r (n - 1)) \<and> x = v @ t)" by blast
      qed
      then show ?thesis by simp
    qed
    also have "\<dots> \<longleftrightarrow> (\<exists>ws. set ws \<subseteq> lang r \<and> length ws \<le> n \<and> s = concat ws @ t)"
      using False by (simp add: upto_unfold)
    also have "\<dots> \<longleftrightarrow> (\<exists>u. u \<in> lang (Upto r n) \<and> s = u @ t)" by auto
    finally show ?thesis .
  qed
qed

lemma test_lang: "test r s \<longleftrightarrow> s \<in> lang r"
  by (simp add: test_def rest_lang)


lemma lang_Upto_iff:
  "w \<in> lang (Upto r n) \<longleftrightarrow> (\<exists>ws. w = concat ws \<and> set ws \<subseteq> lang r \<and> length ws \<le> n)"
  by simp

lemma lang_Star_iff: "w \<in> lang (Star r) \<longleftrightarrow> (\<exists>ws. w = concat ws \<and> set ws \<subseteq> lang r)"
  by simp

lemma lang_Range_iff: "w \<in> lang (Between a b) \<longleftrightarrow> (\<exists>c. w = [c] \<and> a \<le> c \<and> c \<le> b)"
  by simp

lemma lang_alnum_iff: "w \<in> lang alnum \<longleftrightarrow> (\<exists>c. w = [c] \<and> is_alphanumeric c)"
  unfolding alnum_def lang.simps(2) Un_iff lang_Range_iff is_alphanumeric_def by blast

lemma lang_alnum_hyphen_iff:
  "w \<in> lang alnum_hyphen \<longleftrightarrow> (\<exists>c. w = [c] \<and> (is_alphanumeric c \<or> c = 45))"
proof -
  have "\<And>c :: nat. (45 \<le> c \<and> c \<le> 45) = (c = 45)" by auto
  then show ?thesis
    unfolding alnum_hyphen_def lang.simps(2) Un_iff lang_Range_iff is_alphanumeric_def by blast
qed

lemma concat_singletons:
  "\<forall>w \<in> set ws. \<exists>c. w = [c] \<and> P c \<Longrightarrow> length (concat ws) = length ws \<and> list_all P (concat ws)"
  by (induction ws) auto

lemma lang_upto_alnum_hyphen:
  "u \<in> lang (Upto alnum_hyphen n) \<longleftrightarrow>
     length u \<le> n \<and> list_all (\<lambda>c. is_alphanumeric c \<or> c = 45) u"
proof
  assume "u \<in> lang (Upto alnum_hyphen n)"
  then obtain ws where ws: "u = concat ws" "set ws \<subseteq> lang alnum_hyphen" "length ws \<le> n"
    unfolding lang_Upto_iff by blast
  from ws(2) have "\<forall>w \<in> set ws. \<exists>c. w = [c] \<and> (is_alphanumeric c \<or> c = 45)"
    using lang_alnum_hyphen_iff by blast
  from concat_singletons [OF this] ws(1) ws(3)
  show "length u \<le> n \<and> list_all (\<lambda>c. is_alphanumeric c \<or> c = 45) u" by simp
next
  assume u: "length u \<le> n \<and> list_all (\<lambda>c. is_alphanumeric c \<or> c = 45) u"
  have 1: "u = concat (map (\<lambda>c. [c]) u)" by (induction u) simp_all
  have 2: "set (map (\<lambda>c. [c]) u) \<subseteq> lang alnum_hyphen"
  proof
    fix w assume "w \<in> set (map (\<lambda>c. [c]) u)"
    then obtain c where "w = [c]" "c \<in> set u" by auto
    with u have "w = [c] \<and> (is_alphanumeric c \<or> c = 45)" by (simp add: list_all_iff)
    then show "w \<in> lang alnum_hyphen" unfolding lang_alnum_hyphen_iff by (rule exI)
  qed
  have 3: "length (map (\<lambda>c. [c]) u) \<le> n" using u by simp
  from 1 2 3 have "u = concat (map (\<lambda>c. [c]) u) \<and> set (map (\<lambda>c. [c]) u) \<subseteq> lang alnum_hyphen
      \<and> length (map (\<lambda>c. [c]) u) \<le> n" by simp
  then show "u \<in> lang (Upto alnum_hyphen n)" unfolding lang_Upto_iff by (rule exI)
qed

lemma alphanumeric_not_hyphen: "is_alphanumeric c \<Longrightarrow> c \<noteq> 45"
  by (auto simp: is_alphanumeric_def)

lemma not_alphanumeric [simp]: "\<not> is_alphanumeric 45" "\<not> is_alphanumeric 46"
  by (simp_all add: is_alphanumeric_def)

lemma lang_Seq_iff: "w \<in> lang (Seq r1 r2) \<longleftrightarrow> (\<exists>u v. w = u @ v \<and> u \<in> lang r1 \<and> v \<in> lang r2)"
  by auto

lemma lang_label: "l \<in> lang label \<longleftrightarrow> valid_label l"
proof
  assume "l \<in> lang label"
  then have "l \<in> lang (Seq alnum (Opt (Seq (Upto alnum_hyphen 61) alnum)))"
    by (simp only: label_def)
  then obtain a m where am: "l = a @ m" "a \<in> lang alnum"
    "m \<in> lang (Opt (Seq (Upto alnum_hyphen 61) alnum))"
    unfolding lang_Seq_iff [of l] by blast
  from am(2) obtain c where c: "a = [c]" "is_alphanumeric c"
    unfolding lang_alnum_iff by blast
  from am(3) have "m = [] \<or> m \<in> lang (Seq (Upto alnum_hyphen 61) alnum)"
    by (simp only: lang.simps(4) insert_iff)
  then show "valid_label l"
  proof
    assume "m = []"
    with am c show ?thesis by (simp add: valid_label_def alphanumeric_not_hyphen)
  next
    assume "m \<in> lang (Seq (Upto alnum_hyphen 61) alnum)"
    then obtain u v where uv: "m = u @ v" "u \<in> lang (Upto alnum_hyphen 61)" "v \<in> lang alnum"
      unfolding lang_Seq_iff [of m] by blast
    from uv(3) obtain d where d: "v = [d]" "is_alphanumeric d"
      unfolding lang_alnum_iff by blast
    from uv(2) have u: "length u \<le> 61" "list_all (\<lambda>c. is_alphanumeric c \<or> c = 45) u"
      unfolding lang_upto_alnum_hyphen by simp_all
    have "l = c # u @ [d]" using am(1) c(1) uv(1) d(1) by simp
    moreover have "c \<noteq> 45" "d \<noteq> 45" using c(2) d(2) by (simp_all add: alphanumeric_not_hyphen)
    ultimately show ?thesis using u c(2) d(2) by (simp add: valid_label_def)
  qed
next
  assume v: "valid_label l"
  then obtain c m where l: "l = c # m" by (cases l) (simp_all add: valid_label_def)
  from v l have c: "is_alphanumeric c" by (auto simp: valid_label_def)
  have c': "[c] \<in> lang alnum" using c by (simp add: lang_alnum_iff)
  have "m \<in> lang (Opt (Seq (Upto alnum_hyphen 61) alnum))"
  proof (cases "m = []")
    case True
    then show ?thesis by simp
  next
    case False
    then have m: "m = butlast m @ [last m]" by simp
    from False have "last m \<in> set m" by simp
    with v l False have "last m \<noteq> 45" "is_alphanumeric (last m) \<or> last m = 45"
      by (auto simp: valid_label_def list_all_iff)
    then have d: "[last m] \<in> lang alnum" by (simp add: lang_alnum_iff)
    from v l have "list_all (\<lambda>c. is_alphanumeric c \<or> c = 45) m" "length m \<le> 62"
      by (simp_all add: valid_label_def)
    then have "list_all (\<lambda>c. is_alphanumeric c \<or> c = 45) (butlast m)" "length (butlast m) \<le> 61"
      by (auto simp: list_all_iff dest: in_set_butlastD)
    then have u: "butlast m \<in> lang (Upto alnum_hyphen 61)"
      unfolding lang_upto_alnum_hyphen by simp
    have "butlast m @ [last m] \<in> lang (Seq (Upto alnum_hyphen 61) alnum)"
      unfolding lang_Seq_iff using u d by blast
    with m have "m \<in> lang (Seq (Upto alnum_hyphen 61) alnum)" by simp
    then show ?thesis by (simp only: lang.simps(4) insert_iff) simp
  qed
  with c' have "[c] @ m \<in> lang (Seq alnum (Opt (Seq (Upto alnum_hyphen 61) alnum)))"
    unfolding lang_Seq_iff [of "[c] @ m"] by blast
  with l show "l \<in> lang label" by (simp only: label_def) simp
qed

lemma valid_label_no_dot: "valid_label l \<Longrightarrow> 46 \<notin> set l"
  by (auto simp: valid_label_def list_all_iff)

lemma labels_not_Nil [simp]: "labels s \<noteq> []"
  by (induction s) (auto split: list.splits)

lemma labels_no_dot: "46 \<notin> set l \<Longrightarrow> labels l = [l]"
  by (induction l) auto

lemma labels_append: "46 \<notin> set l \<Longrightarrow> labels (l @ 46 # t) = l # labels t"
  by (induction l) auto

lemma labels_joined:
  "46 \<notin> set l \<Longrightarrow> \<forall>x \<in> set ls. 46 \<notin> set x \<Longrightarrow>
     labels (l @ concat (map ((#) 46) ls)) = l # ls"
proof (induction ls arbitrary: l)
  case Nil
  then show ?case by (simp add: labels_no_dot)
next
  case (Cons x xs)
  then have "labels (x @ concat (map ((#) 46) xs)) = x # xs" by simp
  with Cons.prems show ?case by (simp add: labels_append)
qed

lemma labels_join: "\<exists>l ls. labels s = l # ls \<and> s = l @ concat (map ((#) 46) ls)"
proof (induction s)
  case Nil
  show ?case by simp
next
  case (Cons c cs)
  then obtain l ls where "labels cs = l # ls" "cs = l @ concat (map ((#) 46) ls)" by blast
  then show ?case by (cases "c = 46") auto
qed

lemma lang_domain_regex: "s \<in> lang domain_regex \<longleftrightarrow> well_formed_domain s"
proof
  assume "s \<in> lang domain_regex"
  then obtain l ws where s: "s = l @ concat ws" "l \<in> lang label"
    "set ws \<subseteq> lang (Seq (Between 46 46) label)"
    unfolding domain_regex_def lang.simps(3) lang.simps(5) by blast
  have "\<exists>ls. ws = map ((#) 46) ls \<and> list_all valid_label ls" using s(3)
  proof (induction ws)
    case Nil
    show ?case by simp
  next
    case (Cons w ws)
    then obtain ls where ls: "ws = map ((#) 46) ls" "list_all valid_label ls" by auto
    from Cons.prems obtain x where "w = 46 # x" "valid_label x" by (auto simp: lang_label)
    with ls have "w # ws = map ((#) 46) (x # ls) \<and> list_all valid_label (x # ls)" by simp
    then show ?case by (rule exI)
  qed
  then obtain ls where ls: "ws = map ((#) 46) ls" "list_all valid_label ls" by blast
  from s(2) have l: "valid_label l" by (simp add: lang_label)
  have "labels s = l # ls"
    unfolding s(1) ls(1) using l ls(2)
    by (intro labels_joined) (auto simp: list_all_iff dest: valid_label_no_dot)
  with l ls(2) show "well_formed_domain s" by (simp add: well_formed_domain_def)
next
  assume w: "well_formed_domain s"
  obtain l ls where s: "labels s = l # ls" "s = l @ concat (map ((#) 46) ls)"
    using labels_join by blast
  with w have v: "valid_label l" "list_all valid_label ls" by (simp_all add: well_formed_domain_def)
  have "set (map ((#) 46) ls) \<subseteq> lang (Seq (Between 46 46) label)"
  proof
    fix x assume "x \<in> set (map ((#) 46) ls)"
    then obtain y where "x = [46] @ y" "y \<in> set ls" by auto
    with v(2) have "x = [46] @ y \<and> [46] \<in> lang (Between 46 46) \<and> y \<in> lang label"
      by (auto simp: list_all_iff lang_label)
    then show "x \<in> lang (Seq (Between 46 46) label)" unfolding lang.simps(3) by blast
  qed
  moreover have "l \<in> lang label" using v(1) by (simp add: lang_label)
  ultimately show "s \<in> lang domain_regex"
    unfolding domain_regex_def lang.simps(3) lang.simps(5) using s(2) by blast
qed

lemma test_domain_regex: "test domain_regex s \<longleftrightarrow> well_formed_domain s"
  by (simp add: test_lang lang_domain_regex)

subsection \<open>The blocked-domains component\<close>

lemma loadBlockedDomains_invocations:
  "invocations (snd (snd (loadBlockedDomains be (s, w)))) =
     invocations (snd w) @
       get_blocked_domains #
         (case fst (on_get_blocked_domains be (fst w)) of
            Inr d \<Rightarrow> [get_statistics] | Inl error \<Rightarrow> [])"
  by (simp add: loadBlockedDomains_def invoke_def emit_def Let_def invocations_append
      case_prod_beta split: sum.splits)

text \<open>
  Claim C5. A malformed domain name is rejected before any store mutation. When the
  trimmed input is empty, or is not a sequence of dot-separated labels of 1 to 63
  alphanumeric-or-hyphen characters that neither start nor end with a hyphen,
  \<open>addDomain\<close> shows an error toast and does nothing else: no command is invoked
  (\<open>add_domain\<close> in particular), and the component and the backend's state are as before.
  The regular expression of the source accepts exactly the well-formed names
  (\<open>test_domain_regex\<close>).
\<close>

theorem malformed_domain_rejected:
  "trim (newDomain s) = [] \<or> \<not> well_formed_domain (trim (newDomain s)) \<Longrightarrow>
     addDomain be (s, w) =
       (s, fst w,
        snd w @ [Toast_error
                   (if trim (newDomain s) = [] then str ''Please enter a domain name''
                    else str ''Please enter a valid domain name'') None])"
  by (auto simp: addDomain_def emit_def Let_def test_domain_regex)

theorem malformed_domain_rejected_witness:
  "addDomain reference_backend
     (BlockedList_refs\<lparr>newDomain := str '' ads..example.com''\<rparr>, example_store, []) =
     (BlockedList_refs\<lparr>newDomain := str '' ads..example.com''\<rparr>, example_store,
      [Toast_error (str ''Please enter a valid domain name'') None])"
  using malformed_domain_rejected
    [of "BlockedList_refs\<lparr>newDomain := str '' ads..example.com''\<rparr>" reference_backend
        "(example_store, [])"]
  by (simp add: trim_def is_white_space_def str_def well_formed_domain_def valid_label_def)

text \<open>
  Claim C8. Every domain added through the UI is mapped to the loopback address. The
  commands \<open>addDomain\<close> invokes are: nothing when the trimmed input is empty or fails the
  pattern; otherwise \<open>add_domain\<close> with the address 127.0.0.1 and the trimmed input as host
  name, followed, when it succeeded, by the reads of \<open>loadBlockedDomains\<close>. So the add path
  never passes another address or another name.
\<close>

theorem add_domain_uses_loopback:
  "invocations (snd (snd (addDomain be (s, w)))) =
     invocations (snd w) @
       (if trim (newDomain s) \<noteq> [] \<and> test domain_regex (trim (newDomain s))
        then add_domain (str ''127.0.0.1'') (trim (newDomain s)) #
               (case on_add_domain be (str ''127.0.0.1'') (trim (newDomain s)) (fst w) of
                  (Inl error, b) \<Rightarrow> []
                | (Inr u, b) \<Rightarrow>
                    get_blocked_domains #
                      (case fst (on_get_blocked_domains be b) of
                         Inr d \<Rightarrow> [get_statistics] | Inl error \<Rightarrow> []))
        else [])"
  by (simp add: addDomain_def emit_def invoke_def Let_def invocations_append
      loadBlockedDomains_invocations case_prod_beta split: sum.splits prod.splits)

theorem add_domain_uses_loopback_witness:
  "invocations (snd (snd (addDomain reference_backend
     (BlockedList_refs\<lparr>newDomain := str '' ads.example.org ''\<rparr>, example_store, [])))) =
     [add_domain (str ''127.0.0.1'') (str ''ads.example.org''), get_blocked_domains, get_statistics]"
  using add_domain_uses_loopback
    [of reference_backend "BlockedList_refs\<lparr>newDomain := str '' ads.example.org ''\<rparr>"
        "(example_store, [])"]
  by (simp add: trim_def is_white_space_def str_def test_def domain_regex_def label_def alnum_def
      alnum_hyphen_def rest.simps(5) rest.simps(6))


subsection \<open>Absent privileges\<close>

text \<open>
  Claim C1 says that without administrator privileges the add and remove operations can
  still be performed and only saving is gated. It fails on the code: the application
  shell disables the whole list when the check answered false. On the reference backend
  without privileges, with one blocked domain listed that the backend would remove, a click
  on its Remove button invokes nothing and changes nothing.
\<close>

theorem remove_not_available_without_privileges:
  "hasAdminPrivileges (fst (check_privileges reference_backend (App_refs, example_store, [])))
     = Some False \<and>
   fst (on_remove_domain reference_backend (str ''127.0.0.1'') (str ''ads.example.com'') example_store)
     = Inr () \<and>
   click_Remove reference_backend
     (BlockedList_disabled (fst (check_privileges reference_backend (App_refs, example_store, []))))
     0
     (fst (loadBlockedDomains reference_backend (BlockedList_refs, example_store, [])),
      example_store, []) =
     (fst (loadBlockedDomains reference_backend (BlockedList_refs, example_store, [])),
      example_store, []) \<and>
   blockedDomains (fst (loadBlockedDomains reference_backend (BlockedList_refs, example_store, [])))
     = [\<lparr>ip = str ''127.0.0.1'', hostname = str ''ads.example.com''\<rparr>]"
  by (simp add: check_privileges_def invoke_def App_refs_def BlockedList_disabled_def
      click_Remove_def loadBlockedDomains_def BlockedList_refs_def example_store_def new_Set_def)

text \<open>
  Claim C1 as amended. When \<open>check_admin_privileges\<close> answers false or fails, the list is
  rendered disabled, and a click on its Add Domain, Add, Remove or Save Changes button then
  reaches no handler: the click invokes nothing and changes nothing. Loading the list is
  not gated: \<open>loadBlockedDomains\<close> invokes \<open>get_blocked_domains\<close>, and \<open>get_statistics\<close>
  after it succeeded, whatever the privileges. The statement is about these four buttons;
  it says nothing about the keyboard.
\<close>

theorem privileges_gate_add_remove_save:
  "fst (on_check_admin_privileges be (fst w0)) \<noteq> Inr True \<Longrightarrow>
     (let d = BlockedList_disabled (fst (check_privileges be (a, w0)))
      in d \<and>
         click_Add_Domain d s = s \<and>
         click_Add be d (s, w) = (s, w) \<and>
         click_Remove be d k (s, w) = (s, w) \<and>
         click_Save_Changes be d (s, w) = (s, w)) \<and>
     invocations (snd (snd (loadBlockedDomains be (s, w)))) =
       invocations (snd w) @
         get_blocked_domains #
           (case fst (on_get_blocked_domains be (fst w)) of
              Inr d \<Rightarrow> [get_statistics] | Inl error \<Rightarrow> [])"
proof -
  assume a: "fst (on_check_admin_privileges be (fst w0)) \<noteq> Inr True"
  have d: "BlockedList_disabled (fst (check_privileges be (a, w0)))"
    using a
    by (cases "on_check_admin_privileges be (fst w0)")
       (auto simp: check_privileges_def invoke_def BlockedList_disabled_def split: sum.splits)
  show ?thesis
    using d
    by (simp add: click_Add_Domain_def click_Add_def click_Remove_def click_Save_Changes_def
        loadBlockedDomains_invocations)
qed

theorem privileges_gate_add_remove_save_witness:
  "BlockedList_disabled (fst (check_privileges reference_backend (App_refs, example_store, []))) \<and>
   click_Save_Changes reference_backend True (BlockedList_refs, example_store, []) =
     (BlockedList_refs, example_store, []) \<and>
   invocations (snd (snd (loadBlockedDomains reference_backend (BlockedList_refs, example_store, []))))
     = [get_blocked_domains, get_statistics]"
proof -
  have h: "fst (on_check_admin_privileges reference_backend (fst (example_store, []))) \<noteq> Inr True"
    by (simp add: example_store_def)
  show ?thesis
    using privileges_gate_add_remove_save
      [OF h, of App_refs BlockedList_refs "(example_store, [])" 0]
    by (auto simp add: Let_def)
qed

text \<open>
  The input of a new domain is another way to \<open>addDomain\<close>: \<open>handleAddKeydown\<close> does not
  look at \<open>props.disabled\<close>, so the Enter key in an input that is open calls it whatever
  the privileges.
\<close>

lemma enter_key_reaches_addDomain:
  "showAddInput s \<Longrightarrow> \<not> isAdding s \<Longrightarrow> keydown_in_input be Enter (s, w) = addDomain be (s, w)"
  by (simp add: keydown_in_input_def handleAddKeydown_def)

subsection \<open>Failures that are only logged\<close>

text \<open>
  Claim C6 says that every failing operation surfaces its error to the user. On a backend
  that rejects every command, \<open>loadBlockedDomains\<close> and \<open>setTheme\<close> only write the error to
  the console (no toast, and the list and the theme stay as they were), whereas the sibling
  handlers \<open>loadHistory\<close> and \<open>loadSettings\<close> also show it in an error toast.
\<close>

theorem load_and_theme_failures_only_logged:
  "snd (snd (loadBlockedDomains (rejecting_backend (str ''IoError'')) (BlockedList_refs, (), []))) =
     [Invoke get_blocked_domains,
      Console_error (str ''Failed to load blocked domains:'') (str ''IoError'')] \<and>
   setTheme (rejecting_backend (str ''IoError'')) light (Theme_refs, (), []) =
     (Theme_refs, (),
      [Invoke (update_config \<lparr>json_host_file_path = None, json_history_dir = None,
                 json_max_history_entries = None, json_theme = Some (str ''light'')\<rparr>),
       Console_error (str ''Failed to update theme:'') (str ''IoError'')]) \<and>
   snd (snd (loadHistory (rejecting_backend (str ''IoError'')) (History_refs, (), []))) =
     [Invoke get_history_list,
      Console_error (str ''Failed to load history:'') (str ''IoError''),
      Toast_error (str ''Failed to load history'') (Some (str ''IoError''))] \<and>
   snd (snd (loadSettings (rejecting_backend (str ''IoError'')) (Settings_refs, (), []))) =
     [Invoke get_config,
      Console_error (str ''Failed to load settings:'') (str ''IoError''),
      Toast_error (str ''Failed to load settings'') (Some (str ''IoError''))]"
  by (simp add: loadBlockedDomains_def setTheme_def loadHistory_def loadSettings_def invoke_def
      emit_def theme_name_def)

subsection \<open>The history limit of the configuration\<close>

lemma clamp_history_entries_range:
  "1 \<le> clamp_history_entries n \<and> clamp_history_entries n \<le> 1000"
  by (simp add: clamp_history_entries_def)

lemma config_update_ok: "config_update u c = Inr c' \<Longrightarrow> history_limit_ok c'"
  by (auto simp: config_update_def history_limit_ok_def Let_def clamp_history_entries_range
      split: option.splits number_input.splits)

lemma config_update_number:
  "json_max_history_entries u = Some (Number n) \<Longrightarrow>
     \<exists>c'. config_update u c = Inr c' \<and> max_history_entries c' = clamp_history_entries n"
  by (simp add: config_update_def Let_def)

lemma update_config_keeps_limit:
  "history_limit_ok (configuration s) \<Longrightarrow>
     history_limit_ok (configuration (snd (on_update_config reference_backend u s)))"
  by (cases "config_update u (configuration s)") (simp_all add: config_update_ok)

text \<open>
  Claim C4. After every configuration update the persisted \<open>max_history_entries\<close> lies
  between 1 and 1000. The Config Store is modelled from the specification
  (\<open>config_update\<close>); the callers are the code's. On the reference backend, from a state
  whose configuration satisfies the invariant, every \<open>update_config\<close> leaves a configuration
  that satisfies it, in particular the one \<open>saveSettings\<close> submits with the form's
  unclamped value and the one \<open>setTheme\<close> submits with the theme alone. A number \<open>n\<close>
  submitted by \<open>saveSettings\<close> is persisted as \<open>max 1 (min 1000 n)\<close>; a value that is
  not an integer is refused and the state stays as it was. The configuration before any
  update satisfies the invariant.
\<close>

theorem history_limit_clamped:
  "history_limit_ok (configuration s) \<Longrightarrow>
     history_limit_ok (configuration (snd (on_update_config reference_backend u s))) \<and>
     history_limit_ok (configuration (fst (snd (saveSettings reference_backend t (form, s, tr))))) \<and>
     history_limit_ok (configuration (fst (snd (setTheme reference_backend th (ts, s, tr))))) \<and>
     (case maxHistoryEntries form of
        Number n \<Rightarrow>
          max_history_entries
            (configuration (fst (snd (saveSettings reference_backend t (form, s, tr))))) =
          max 1 (min 1000 n)
      | other \<Rightarrow> fst (snd (saveSettings reference_backend t (form, s, tr))) = s) \<and>
     history_limit_ok default_config"
proof -
  assume ok: "history_limit_ok (configuration s)"
  have save: "fst (snd (saveSettings reference_backend t (form, s, tr))) =
      snd (on_update_config reference_backend
        \<lparr>json_host_file_path = Some (if hostFilePath form = [] then None else Some (hostFilePath form)),
         json_history_dir = Some (if historyDir form = [] then None else Some (historyDir form)),
         json_max_history_entries = Some (maxHistoryEntries form),
         json_theme = Some t\<rparr> s)"
    by (simp add: saveSettings_def invoke_def emit_def Let_def split: sum.splits)
  have theme: "fst (snd (setTheme reference_backend th (ts, s, tr))) =
      snd (on_update_config reference_backend
        \<lparr>json_host_file_path = None, json_history_dir = None,
         json_max_history_entries = None, json_theme = Some (theme_name th)\<rparr> s)"
    by (simp add: setTheme_def invoke_def emit_def Let_def split: sum.splits)
  have number: "case maxHistoryEntries form of
        Number n \<Rightarrow>
          max_history_entries
            (configuration (fst (snd (saveSettings reference_backend t (form, s, tr))))) =
          max 1 (min 1000 n)
      | other \<Rightarrow> fst (snd (saveSettings reference_backend t (form, s, tr))) = s"
    unfolding save
    by (cases "maxHistoryEntries form")
       (simp_all add: config_update_def Let_def clamp_history_entries_def)
  have a: "history_limit_ok (configuration (snd (on_update_config reference_backend v s)))" for v
    using ok by (rule update_config_keeps_limit)
  have 1: "history_limit_ok
      (configuration (fst (snd (saveSettings reference_backend t (form, s, tr)))))"
    unfolding save by (rule a)
  have 2: "history_limit_ok (configuration (fst (snd (setTheme reference_backend th (ts, s, tr)))))"
    unfolding theme by (rule a)
  have 3: "history_limit_ok default_config"
    by (simp add: history_limit_ok_def default_config_def)
  from a [of u] 1 2 number 3 show ?thesis by blast
qed

theorem history_limit_clamped_witness:
  "max_history_entries (configuration (fst (snd (saveSettings reference_backend (str ''dark'')
     (Settings_refs\<lparr>maxHistoryEntries := Number 5000\<rparr>, example_store, []))))) = 1000 \<and>
   history_limit_ok (configuration (fst (snd (saveSettings reference_backend (str ''dark'')
     (Settings_refs\<lparr>maxHistoryEntries := Number 5000\<rparr>, example_store, [])))))"
proof -
  have h: "history_limit_ok (configuration example_store)"
    by (simp add: example_store_def default_config_def history_limit_ok_def)
  show ?thesis
    using history_limit_clamped
      [OF h, of _ "str ''dark''" "Settings_refs\<lparr>maxHistoryEntries := Number 5000\<rparr>" "[]"]
    by simp
qed

subsection \<open>The time of a history entry\<close>

text \<open>
  Claim C7. A history entry's \<open>timestamp\<close> is a unix time in seconds and the entry has
  exactly the fields \<open>filename\<close>, \<open>path\<close>, \<open>entry_count\<close>, \<open>file_size\<close> and \<open>timestamp\<close>;
  so \<open>formatDate\<close> obtains the right time with \<open>new Date(t * 1000)\<close>. For the entry the
  History Manager records at an instant \<open>now\<close> (in milliseconds since the epoch, within
  the range of \<open>Date\<close>), \<open>formatDate\<close> renders the valid date whose time value is \<open>now\<close>
  cut to the whole second, less than a second before \<open>now\<close>. The unit matters: a number
  \<open>t\<close> gives that date under \<open>new Date(t * 1000)\<close> exactly when it is the unix time of
  \<open>now\<close> in seconds. The entry has the five fields, each with the value recorded.
\<close>

theorem formatDate_shows_the_entry_second:
  "\<bar>now\<bar> \<le> 8640000000000000 \<Longrightarrow>
     formatDate toLocaleString (timestamp (history_record now f p c s)) =
       toLocaleString (Date (now - now mod 1000)) \<and>
     now - 999 \<le> now - now mod 1000 \<and> now - now mod 1000 \<le> now \<and>
     (new_Date (t * 1000) = Date (now - now mod 1000) \<longleftrightarrow> t = unix_seconds now) \<and>
     filename (history_record now f p c s) = f \<and>
     path (history_record now f p c s) = p \<and>
     entry_count (history_record now f p c s) = c \<and>
     file_size (history_record now f p c s) = s \<and>
     timestamp (history_record now f p c s) = unix_seconds now"
proof -
  assume r: "\<bar>now\<bar> \<le> 8640000000000000"
  have a: "unix_seconds now * 1000 = now - now mod 1000"
    by (simp add: unix_seconds_def minus_mod_eq_div_mult)
  have b: "now - 999 \<le> now - now mod 1000" "now - now mod 1000 \<le> now"
    by simp_all
  have "now div 1000 \<le> 8640000000000000 div 1000" "- 8640000000000000 div 1000 \<le> now div 1000"
    using r by (auto intro!: zdiv_mono1)
  then have "now div 1000 \<le> 8640000000000" "- 8640000000000 \<le> now div 1000"
    by simp_all
  then have "\<bar>unix_seconds now * 1000\<bar> \<le> 8640000000000000"
    by (simp add: unix_seconds_def abs_le_iff)
  then have v: "\<bar>now - now mod 1000\<bar> \<le> 8640000000000000"
    by (simp only: a)
  then have d: "formatDate toLocaleString (timestamp (history_record now f p c s)) =
      toLocaleString (Date (now - now mod 1000))"
    by (simp add: formatDate_def new_Date_def history_record_def a)
  have u: "new_Date (t * 1000) = Date (now - now mod 1000) \<longleftrightarrow> t = unix_seconds now"
  proof
    assume "new_Date (t * 1000) = Date (now - now mod 1000)"
    then have "t * 1000 = unix_seconds now * 1000"
      by (simp add: new_Date_def a split: if_splits)
    then show "t = unix_seconds now" by simp
  next
    assume "t = unix_seconds now"
    then show "new_Date (t * 1000) = Date (now - now mod 1000)"
      using v by (simp add: new_Date_def a)
  qed
  from d b u show ?thesis by (simp add: history_record_def)
qed

theorem formatDate_shows_the_entry_second_witness:
  "formatDate time_value_digits
     (timestamp (history_record 1700000000123 (str ''hosts_1'') (str ''history/hosts_1'') 0 0)) =
     time_value_digits (Date 1700000000000) \<and>
   timestamp (history_record 1700000000123 (str ''hosts_1'') (str ''history/hosts_1'') 0 0) =
     1700000000 \<and>
   new_Date (1700000000123 * 1000) \<noteq> Date 1700000000000"
  using formatDate_shows_the_entry_second
    [of 1700000000123 time_value_digits "str ''hosts_1''" "str ''history/hosts_1''" 0 0
        1700000000123]
  by (simp add: unix_seconds_def history_record_def)

subsection \<open>Assignments to an object\<close>

lemma insert_index_set: "set (insert_index n kv ps) = insert kv (set ps)"
  by (induction ps) (auto split: option.splits)

lemma insert_index_distinct:
  "fst kv \<notin> fst ` set ps \<Longrightarrow> distinct (map fst ps) \<Longrightarrow> distinct (map fst (insert_index n kv ps))"
  by (induction ps) (auto simp: insert_index_set split: option.splits)

lemma insert_index_map_of:
  "k \<notin> fst ` set ps \<Longrightarrow> map_of (insert_index n (k, v) ps) = (map_of ps)(k \<mapsto> v)"
proof (induction ps)
  case Nil
  show ?case by simp
next
  case (Cons p ps)
  then have "k \<noteq> fst p" "k \<notin> fst ` set ps" by auto
  with Cons.IH show ?case
    by (cases p) (auto simp: fun_upd_twist split: option.splits)
qed

lemma js_put_own: "k \<in> fst ` set cs \<Longrightarrow> js_put k v cs = AList.update k v cs"
  by (simp add: js_put_def map_of_eq_None_iff)

lemma js_put_triv: "map_of cs k = Some v \<Longrightarrow> js_put k v cs = cs"
  by (simp add: js_put_def update_triv)

lemma js_put_distinct: "distinct (map fst cs) \<Longrightarrow> distinct (map fst (js_put k v cs))"
  by (auto simp: js_put_def distinct_update insert_index_distinct map_of_eq_None_iff
      split: option.splits)

lemma js_put_dom:
  "k \<noteq> str ''__proto__'' \<Longrightarrow> fst ` set (js_put k v cs) = insert k (fst ` set cs)"
  by (auto simp: js_put_def dom_update insert_index_set split: option.splits)

lemma append_new_map_of:
  assumes "k \<notin> fst ` set cs"
  shows "map_of (cs @ [(k, v)]) = (map_of cs)(k \<mapsto> v)"
proof (rule ext)
  fix x
  from assms have n: "map_of cs k = None" by (simp add: map_of_eq_None_iff)
  show "map_of (cs @ [(k, v)]) x = ((map_of cs)(k \<mapsto> v)) x"
    using n by (cases "map_of cs x") (auto simp: map_add_def)
qed

lemma js_put_conv:
  "k \<noteq> str ''__proto__'' \<Longrightarrow> map_of (js_put k v cs) = (map_of cs)(k \<mapsto> v)"
  by (auto simp: js_put_def update_conv' insert_index_map_of append_new_map_of map_of_eq_None_iff
      simp del: map_of_append split: option.splits)

lemma proto_inherited: "str ''__proto__'' \<in> set Object_prototype"
  by (simp add: Object_prototype_def)

lemma fold_js_put_own:
  "set (map filename es) \<subseteq> set (map fst cs) \<Longrightarrow>
     fold (\<lambda>e. js_put (filename e) b) es cs = fold (\<lambda>e. AList.update (filename e) b) es cs"
proof (induction es arbitrary: cs)
  case Nil
  show ?case by simp
next
  case (Cons e es)
  then have "filename e \<in> fst ` set cs" by auto
  then have 1: "js_put (filename e) b cs = AList.update (filename e) b cs" by (rule js_put_own)
  have "set (map filename es) \<subseteq> set (map fst (AList.update (filename e) b cs))"
    using Cons.prems by (auto simp: dom_update)
  from Cons.IH [OF this] show ?case by (simp add: 1)
qed

subsection \<open>The selection of the history view\<close>

lemma new_Set_distinct: "distinct xs \<Longrightarrow> new_Set xs = xs"
  by (simp add: new_Set_def distinct_remdups_id)

lemma touched_refl: "touched h h"
  by (simp add: touched_def)

lemma touched_set_entryChecked: "touched h (set_entryChecked k v h)"
  by (simp add: touched_def set_entryChecked_def queueJob_def)

lemma touched_delete_entryChecked: "touched h (delete_entryChecked k h)"
  by (simp add: touched_def delete_entryChecked_def queueJob_def)

lemma entryCheckedStates_set_entryChecked:
  "entryCheckedStates (set_entryChecked k v h) = js_put k v (entryCheckedStates h)"
  by (simp add: set_entryChecked_def queueJob_def js_put_triv)

lemma entryCheckedStates_delete_entryChecked:
  "entryCheckedStates (delete_entryChecked k h) = AList.delete k (entryCheckedStates h)"
  by (simp add: delete_entryChecked_def queueJob_def map_of_eq_None_iff delete_notin_dom
      delete_id)


lemma touched_trans: "touched h h1 \<Longrightarrow> touched h1 h2 \<Longrightarrow> touched h h2"
  unfolding touched_def by auto

lemma length_filter_all: "length (filter P xs) = length xs \<longleftrightarrow> (\<forall>x \<in> set xs. P x)"
proof (induction xs)
  case Nil
  show ?case by simp
next
  case (Cons x xs)
  have "length (filter P xs) \<noteq> Suc (length xs)"
    using length_filter_le [of P xs] by linarith
  with Cons show ?case by auto
qed

lemma fold_update_map_of:
  "map_of (fold (\<lambda>e. AList.update (filename e) b) es cs) k =
     (if k \<in> set (map filename es) then Some b else map_of cs k)"
  by (induction es arbitrary: cs) (auto simp: update_conv')

lemma fold_update_keys:
  "set (map fst (fold (\<lambda>e. AList.update (filename e) b) es cs)) =
     set (map fst cs) \<union> set (map filename es)"
  by (induction es arbitrary: cs) (auto simp: dom_update)

lemma fold_update_distinct:
  "distinct (map fst cs) \<Longrightarrow> distinct (map fst (fold (\<lambda>e. AList.update (filename e) b) es cs))"
  by (induction es arbitrary: cs) (auto simp: distinct_update)

lemma fold_set_entryChecked:
  "touched h (fold (\<lambda>entry. set_entryChecked (filename entry) b) es h) \<and>
   entryCheckedStates (fold (\<lambda>entry. set_entryChecked (filename entry) b) es h) =
     fold (\<lambda>e. js_put (filename e) b) es (entryCheckedStates h)"
proof (induction es arbitrary: h)
  case Nil
  show ?case by (simp add: touched_refl)
next
  case (Cons e es)
  from Cons [of "set_entryChecked (filename e) b h"] touched_set_entryChecked [of h "filename e" b]
  show ?case
    by (auto simp: entryCheckedStates_set_entryChecked intro: touched_trans)
qed

text \<open>What \<open>updateSelectedEntries\<close> leaves behind.\<close>

lemma updateSelectedEntries_unfold:
  "distinct (map fst (entryCheckedStates h)) \<Longrightarrow>
     updateSelectedEntries h =
       set_selectAllChecked
         (historyEntries h \<noteq> [] \<and>
          length (filter snd (entryCheckedStates h)) = length (historyEntries h))
         (h\<lparr>selectedEntries := map fst (filter snd (entryCheckedStates h))\<rparr>)"
  by (simp add: updateSelectedEntries_def Let_def new_Set_distinct distinct_map_filter)

lemma updateSelectedEntries_fields:
  assumes "distinct (map fst (entryCheckedStates h))"
  shows "entryCheckedStates (updateSelectedEntries h) = entryCheckedStates h"
    and "historyEntries (updateSelectedEntries h) = historyEntries h"
    and "seen_selectAllChecked (updateSelectedEntries h) = seen_selectAllChecked h"
    and "selectAllChecked (updateSelectedEntries h) =
           (historyEntries h \<noteq> [] \<and>
            length (filter snd (entryCheckedStates h)) = length (historyEntries h))"
    and "selectedEntries (updateSelectedEntries h) = map fst (filter snd (entryCheckedStates h))"
  unfolding updateSelectedEntries_unfold [OF assms]
  by (simp_all add: set_selectAllChecked_def queueJob_def)

lemma updateSelectedEntries_consistent_after:
  assumes "distinct (map fst (entryCheckedStates h))"
  shows "consistent (updateSelectedEntries h)"
  unfolding consistent_def
  by (simp add: updateSelectedEntries_fields [OF assms])

lemma updateSelectedEntries_jobs:
  assumes "distinct (map fst (entryCheckedStates h))"
  shows "jobs (updateSelectedEntries h) =
           (if selectAllChecked (updateSelectedEntries h) = selectAllChecked h
               \<or> Watch_selectAllChecked \<in> set (jobs h)
            then jobs h else jobs h @ [Watch_selectAllChecked])"
  unfolding updateSelectedEntries_unfold [OF assms]
  by (simp add: set_selectAllChecked_def queueJob_def)

lemma updateSelectedEntries_watch_ok:
  assumes "distinct (map fst (entryCheckedStates h))" and "watch_ok h"
  shows "watch_ok (updateSelectedEntries h)"
  using assms(2) unfolding watch_ok_def
  by (auto simp: updateSelectedEntries_jobs [OF assms(1)] updateSelectedEntries_fields(3) [OF assms(1)])

lemma updateSelectedEntries_consistent:
  "distinct (map fst (entryCheckedStates h)) \<Longrightarrow> consistent h \<Longrightarrow> updateSelectedEntries h = h"
  by (auto simp: updateSelectedEntries_unfold set_selectAllChecked_def consistent_def)


lemma checked_ok_length:
  "checked_ok h \<Longrightarrow> length (entryCheckedStates h) = length (historyEntries h)"
proof -
  assume c: "checked_ok h"
  from c have 1: "card (set (map fst (entryCheckedStates h))) = length (map fst (entryCheckedStates h))"
    by (intro distinct_card) (simp add: checked_ok_def)
  from c have 2: "card (set (map filename (historyEntries h))) = length (map filename (historyEntries h))"
    by (intro distinct_card) (simp add: checked_ok_def)
  from c have "set (map fst (entryCheckedStates h)) = set (map filename (historyEntries h))"
    by (simp add: checked_ok_def)
  with 1 2 have "length (map fst (entryCheckedStates h)) = length (map filename (historyEntries h))"
    by (simp only:)
  then show ?thesis by simp
qed

lemma all_values:
  assumes "distinct (map fst cs)" and "\<forall>k \<in> set (map fst cs). map_of cs k = Some b"
  shows "filter snd cs = (if b then cs else [])"
proof -
  have "\<forall>p \<in> set cs. snd p = b"
  proof
    fix p assume pin: "p \<in> set cs"
    then have "map_of cs (fst p) = Some (snd p)" using assms(1) by (simp add: map_of_eq_Some_iff)
    moreover from pin have "fst p \<in> set (map fst cs)" by simp
    ultimately show "snd p = b" using assms(2) by auto
  qed
  then show ?thesis by (cases b) (auto simp: filter_id_conv filter_empty_conv)
qed

lemma on_selectAllChecked_settles:
  assumes c: "checked_ok h" and b: "selectAllChecked h = b" and e: "b \<longrightarrow> historyEntries h \<noteq> []"
  shows "checked_ok (on_selectAllChecked b h) \<and>
         consistent (on_selectAllChecked b h) \<and>
         selectAllChecked (on_selectAllChecked b h) = b \<and>
         seen_selectAllChecked (on_selectAllChecked b h) = seen_selectAllChecked h \<and>
         historyEntries (on_selectAllChecked b h) = historyEntries h \<and>
         (jobs (on_selectAllChecked b h) = jobs h \<or>
          (Watch_entryCheckedStates \<notin> set (jobs h) \<and>
           jobs (on_selectAllChecked b h) = jobs h @ [Watch_entryCheckedStates])) \<and>
         (\<forall>k \<in> set (map fst (entryCheckedStates (on_selectAllChecked b h))).
            map_of (entryCheckedStates (on_selectAllChecked b h)) k = Some b)"
proof -
  define f where "f = fold (\<lambda>entry. set_entryChecked (filename entry) b) (historyEntries h) h"
  have r: "on_selectAllChecked b h = updateSelectedEntries f"
    by (simp add: on_selectAllChecked_def f_def)
  have t: "touched h f"
    and cs: "entryCheckedStates f =
      fold (\<lambda>e. AList.update (filename e) b) (historyEntries h) (entryCheckedStates h)"
    using fold_set_entryChecked [of h b "historyEntries h"] c
    by (simp_all add: f_def fold_js_put_own checked_ok_def)
  from t have fe: "historyEntries f = historyEntries h" and fs: "selectAllChecked f = b"
    and fseen: "seen_selectAllChecked f = seen_selectAllChecked h"
    and fj: "jobs f = jobs h \<or>
          (Watch_entryCheckedStates \<notin> set (jobs h) \<and> jobs f = jobs h @ [Watch_entryCheckedStates])"
    using b by (simp_all add: touched_def)
  have d: "distinct (map fst (entryCheckedStates f))"
    using c by (simp add: cs fold_update_distinct checked_ok_def)
  have k: "set (map fst (entryCheckedStates f)) = set (map filename (historyEntries f))"
    using c unfolding cs fold_update_keys fe by (auto simp: checked_ok_def)
  have cf: "checked_ok f"
    using c d k by (simp add: checked_ok_def fe)
  have v: "\<forall>k \<in> set (map fst (entryCheckedStates f)). map_of (entryCheckedStates f) k = Some b"
    unfolding k fe by (simp add: cs fold_update_map_of)
  have fl: "filter snd (entryCheckedStates f) = (if b then entryCheckedStates f else [])"
    using d v by (rule all_values)
  have sel: "selectAllChecked (updateSelectedEntries f) = b"
    using e by (cases b)
      (simp_all add: updateSelectedEntries_fields(4) [OF d] fl fe checked_ok_length [OF cf, unfolded fe])
  have j: "jobs (updateSelectedEntries f) = jobs f"
    by (simp add: updateSelectedEntries_jobs [OF d] sel fs)
  have c': "checked_ok (updateSelectedEntries f)"
    using cf by (simp add: checked_ok_def updateSelectedEntries_fields [OF d])
  show ?thesis
    unfolding r
    using c' updateSelectedEntries_consistent_after [OF d] sel fseen fe fj v
    by (simp add: updateSelectedEntries_fields [OF d] j)
qed


lemma all_checked_iff:
  assumes "checked_ok h" and "consistent h"
  shows "selectAllChecked h \<longleftrightarrow>
           historyEntries h \<noteq> [] \<and>
           (\<forall>k \<in> set (map fst (entryCheckedStates h)). map_of (entryCheckedStates h) k = Some True)"
proof -
  have d: "distinct (map fst (entryCheckedStates h))" using assms(1) by (simp add: checked_ok_def)
  have "selectAllChecked h \<longleftrightarrow>
      historyEntries h \<noteq> [] \<and> length (filter snd (entryCheckedStates h)) = length (entryCheckedStates h)"
    using assms(2) by (simp add: consistent_def checked_ok_length [OF assms(1)])
  also have "length (filter snd (entryCheckedStates h)) = length (entryCheckedStates h) \<longleftrightarrow>
      (\<forall>p \<in> set (entryCheckedStates h). snd p)"
    by (rule length_filter_all)
  also have "(\<forall>p \<in> set (entryCheckedStates h). snd p) \<longleftrightarrow>
      (\<forall>k \<in> set (map fst (entryCheckedStates h)). map_of (entryCheckedStates h) k = Some True)"
  proof
    assume a: "\<forall>p \<in> set (entryCheckedStates h). snd p"
    show "\<forall>k \<in> set (map fst (entryCheckedStates h)). map_of (entryCheckedStates h) k = Some True"
    proof
      fix k assume "k \<in> set (map fst (entryCheckedStates h))"
      then obtain v where kv: "(k, v) \<in> set (entryCheckedStates h)" by auto
      with a have "v" by auto
      with kv d show "map_of (entryCheckedStates h) k = Some True" by (simp add: map_of_eq_Some_iff)
    qed
  next
    assume a: "\<forall>k \<in> set (map fst (entryCheckedStates h)). map_of (entryCheckedStates h) k = Some True"
    show "\<forall>p \<in> set (entryCheckedStates h). snd p"
    proof
      fix p assume pin: "p \<in> set (entryCheckedStates h)"
      then have "map_of (entryCheckedStates h) (fst p) = Some (snd p)"
        using d by (simp add: map_of_eq_Some_iff)
      moreover from pin have "fst p \<in> set (map fst (entryCheckedStates h))" by simp
      ultimately show "snd p" using a by auto
    qed
  qed
  finally show ?thesis .
qed

lemma flushJobs_Nil: "jobs h = [] \<Longrightarrow> flushJobs h = Some h"
  by (subst flushJobs.simps) simp

lemma flushJobs_Cons: "jobs h = j # js \<Longrightarrow> flushJobs h = flushJobs (run_job j (h\<lparr>jobs := js\<rparr>))"
  by (subst flushJobs.simps) simp

lemma flushJobs_settles:
  "stable h \<Longrightarrow>
     \<exists>h'. flushJobs h = Some h' \<and> at_rest h' \<and> historyEntries h' = historyEntries h \<and>
          (\<forall>k. map_of (entryCheckedStates h) k = Some False \<longrightarrow>
               map_of (entryCheckedStates h') k = Some False)"
proof (induction "pending h" arbitrary: h rule: less_induct)
  case less
  note st = \<open>stable h\<close>
  show ?case
  proof (cases "jobs h")
    case Nil
    with st have "flushJobs h = Some h \<and> at_rest h" by (simp add: flushJobs_Nil at_rest_def)
    then show ?thesis by blast
  next
    case (Cons j js)
    define h0 where "h0 = h\<lparr>jobs := js\<rparr>"
    define h1 where "h1 = run_job j h0"
    have step: "flushJobs h = flushJobs h1"
      using Cons by (simp add: flushJobs_Cons h0_def h1_def)
    have c0: "checked_ok h0" "consistent h0"
      using st by (simp_all add: stable_def h0_def checked_ok_def consistent_def)
    have d0: "distinct (map fst (entryCheckedStates h0))"
      using c0(1) by (simp add: checked_ok_def)
    have no3: "Watch_historyEntries \<notin> set js" "j \<noteq> Watch_historyEntries"
      using st Cons by (auto simp: stable_def)
    have main: "stable h1 \<and> pending h1 < pending h \<and> historyEntries h1 = historyEntries h \<and>
          (\<forall>k. map_of (entryCheckedStates h) k = Some False \<longrightarrow>
               map_of (entryCheckedStates h1) k = Some False)"
    proof (cases j)
      case Watch_historyEntries
      with no3 show ?thesis by simp
    next
      case Watch_entryCheckedStates
      have "h1 = h0"
        by (simp add: h1_def Watch_entryCheckedStates on_entryCheckedStates_def
            updateSelectedEntries_consistent [OF d0 c0(2)])
      moreover have "watch_ok h0"
        using st Cons Watch_entryCheckedStates by (auto simp: stable_def watch_ok_def h0_def)
      ultimately show ?thesis
        using c0 no3 Cons Watch_entryCheckedStates
        by (simp add: stable_def pending_def h0_def)
    next
      case Watch_selectAllChecked
      show ?thesis
      proof (cases "selectAllChecked h0 = seen_selectAllChecked h0")
        case True
        then have "h1 = h0" by (simp add: h1_def Watch_selectAllChecked)
        moreover have "watch_ok h0" using True by (simp add: watch_ok_def)
        ultimately show ?thesis
          using c0 no3 Cons Watch_selectAllChecked
          by (simp add: stable_def pending_def h0_def)
      next
        case False
        define b where "b = selectAllChecked h0"
        define h2 where "h2 = h0\<lparr>seen_selectAllChecked := b\<rparr>"
        have h1: "h1 = on_selectAllChecked b h2"
          using False by (simp add: h1_def Watch_selectAllChecked b_def h2_def)
        have c2: "checked_ok h2" "selectAllChecked h2 = b"
          using c0(1) by (simp_all add: checked_ok_def h2_def b_def)
        have e2: "b \<longrightarrow> historyEntries h2 \<noteq> []"
          using c0(2) by (auto simp: consistent_def h2_def b_def)
        note s = on_selectAllChecked_settles [OF c2 e2, folded h1]
        from s have j1: "jobs h1 = js \<or> jobs h1 = js @ [Watch_entryCheckedStates]"
          by (auto simp: h2_def h0_def)
        have w1: "watch_ok h1" using s by (simp add: watch_ok_def h2_def)
        have st1: "stable h1"
          using s j1 no3 w1 by (auto simp: stable_def)
        have p1: "pending h1 < pending h"
          using j1 Cons Watch_selectAllChecked by (auto simp: pending_def)
        have e1: "historyEntries h1 = historyEntries h"
          using s by (simp add: h2_def h0_def)
        have f1: "\<forall>k. map_of (entryCheckedStates h) k = Some False \<longrightarrow>
               map_of (entryCheckedStates h1) k = Some False"
        proof (intro allI impI)
          fix k assume k: "map_of (entryCheckedStates h) k = Some False"
          then have kin: "k \<in> set (map fst (entryCheckedStates h))"
            by (metis map_of_eq_None_iff option.distinct(1) set_map)
          have "\<not> b"
          proof
            assume b
            then have "selectAllChecked h0" by (simp add: b_def)
            with all_checked_iff [OF c0] kin
            have "map_of (entryCheckedStates h0) k = Some True" by (auto simp: h0_def)
            with k show False by (simp add: h0_def)
          qed
          moreover have "k \<in> set (map fst (entryCheckedStates h1))"
          proof -
            have "set (map fst (entryCheckedStates h1)) = set (map filename (historyEntries h1))"
              using s by (simp add: checked_ok_def)
            also have "\<dots> = set (map fst (entryCheckedStates h))"
              using st e1 by (simp add: stable_def checked_ok_def)
            finally show ?thesis using kin by simp
          qed
          ultimately show "map_of (entryCheckedStates h1) k = Some False"
            using s by auto
        qed
        from st1 p1 e1 f1 show ?thesis by blast
      qed
    qed
    from main less.hyps [of h1] obtain h' where
      "flushJobs h1 = Some h'" "at_rest h'" "historyEntries h' = historyEntries h1"
      "\<forall>k. map_of (entryCheckedStates h1) k = Some False \<longrightarrow>
           map_of (entryCheckedStates h') k = Some False"
      by blast
    with main step have "flushJobs h = Some h' \<and> at_rest h' \<and> historyEntries h' = historyEntries h \<and>
          (\<forall>k. map_of (entryCheckedStates h) k = Some False \<longrightarrow>
               map_of (entryCheckedStates h') k = Some False)"
      by simp
    then show ?thesis by blast
  qed
qed


lemma touched_watch_ok: "touched h h' \<Longrightarrow> watch_ok h \<Longrightarrow> watch_ok h'"
  by (auto simp: touched_def watch_ok_def)

lemma touched_jobs: "touched h h' \<Longrightarrow> set (jobs h') \<subseteq> insert Watch_entryCheckedStates (set (jobs h))"
  by (auto simp: touched_def)

lemma fold_initialize:
  "\<forall>e \<in> set es. filename e \<notin> set Object_prototype \<Longrightarrow>
     touched h (fold (\<lambda>entry s.
                  if \<not> js_in (filename entry) (entryCheckedStates s)
                  then set_entryChecked (filename entry) False s else s) es h) \<and>
     (distinct (map fst (entryCheckedStates h)) \<longrightarrow>
        distinct (map fst (entryCheckedStates (fold (\<lambda>entry s.
                  if \<not> js_in (filename entry) (entryCheckedStates s)
                  then set_entryChecked (filename entry) False s else s) es h)))) \<and>
     set (map fst (entryCheckedStates (fold (\<lambda>entry s.
                  if \<not> js_in (filename entry) (entryCheckedStates s)
                  then set_entryChecked (filename entry) False s else s) es h))) =
        set (map fst (entryCheckedStates h)) \<union> set (map filename es) \<and>
     (\<forall>k. map_of (entryCheckedStates (fold (\<lambda>entry s.
                  if \<not> js_in (filename entry) (entryCheckedStates s)
                  then set_entryChecked (filename entry) False s else s) es h)) k =
           (if k \<in> set (map filename es) \<and> map_of (entryCheckedStates h) k = None
            then Some False else map_of (entryCheckedStates h) k))"
  (is "_ \<Longrightarrow> ?P es h")
proof (induction es arbitrary: h)
  case Nil
  show ?case by (simp add: touched_refl)
next
  case (Cons e es)
  define g where "g = (if \<not> js_in (filename e) (entryCheckedStates h)
            then set_entryChecked (filename e) False h else h)"
  have t: "touched h g" by (simp add: g_def touched_refl touched_set_entryChecked)
  have cs: "entryCheckedStates g =
      (if map_of (entryCheckedStates h) (filename e) = None
       then js_put (filename e) False (entryCheckedStates h) else entryCheckedStates h)"
    using Cons.prems by (simp add: g_def js_in_def entryCheckedStates_set_entryChecked)
  have np: "filename e \<noteq> str ''__proto__''"
    using Cons.prems proto_inherited by auto
  have p: "\<forall>e \<in> set es. filename e \<notin> set Object_prototype" using Cons.prems by simp
  have ih: "?P es g" by (rule Cons.IH [OF p])
  have 1: "touched h (fold (\<lambda>entry s.
                  if \<not> js_in (filename entry) (entryCheckedStates s)
                  then set_entryChecked (filename entry) False s else s) es g)"
    using ih t by (blast intro: touched_trans)
  have 2: "distinct (map fst (entryCheckedStates h)) \<longrightarrow>
        distinct (map fst (entryCheckedStates (fold (\<lambda>entry s.
                  if \<not> js_in (filename entry) (entryCheckedStates s)
                  then set_entryChecked (filename entry) False s else s) es g)))"
    using ih by (simp add: cs js_put_distinct)
  have 3: "set (map fst (entryCheckedStates (fold (\<lambda>entry s.
                  if \<not> js_in (filename entry) (entryCheckedStates s)
                  then set_entryChecked (filename entry) False s else s) es g))) =
        set (map fst (entryCheckedStates h)) \<union> set (map filename (e # es))"
    using ih by (auto simp: cs js_put_dom [OF np] map_of_eq_None_iff)
  have 4: "\<forall>k. map_of (entryCheckedStates (fold (\<lambda>entry s.
                  if \<not> js_in (filename entry) (entryCheckedStates s)
                  then set_entryChecked (filename entry) False s else s) es g)) k =
           (if k \<in> set (map filename (e # es)) \<and> map_of (entryCheckedStates h) k = None
            then Some False else map_of (entryCheckedStates h) k)"
    using ih by (auto simp: cs js_put_conv [OF np])
  from 1 2 3 4 show ?case by (simp add: g_def)
qed


lemma fold_prune:
  "touched h (fold (\<lambda>fname s.
                  if find (\<lambda>e. filename e = fname) es = None
                  then delete_entryChecked fname s else s) ks h) \<and>
   (distinct (map fst (entryCheckedStates h)) \<longrightarrow>
      distinct (map fst (entryCheckedStates (fold (\<lambda>fname s.
                  if find (\<lambda>e. filename e = fname) es = None
                  then delete_entryChecked fname s else s) ks h)))) \<and>
   (\<forall>k. map_of (entryCheckedStates (fold (\<lambda>fname s.
                  if find (\<lambda>e. filename e = fname) es = None
                  then delete_entryChecked fname s else s) ks h)) k =
         (if k \<in> set ks \<and> k \<notin> set (map filename es) then None
          else map_of (entryCheckedStates h) k))"
  (is "?P ks h")
proof (induction ks arbitrary: h)
  case Nil
  show ?case by (simp add: touched_refl)
next
  case (Cons x ks)
  define g where "g = (if find (\<lambda>e. filename e = x) es = None
            then delete_entryChecked x h else h)"
  have t: "touched h g" by (simp add: g_def touched_refl touched_delete_entryChecked)
  have f: "find (\<lambda>e. filename e = x) es = None \<longleftrightarrow> x \<notin> set (map filename es)"
    by (auto simp: find_None_iff)
  have cs: "entryCheckedStates g =
      (if x \<notin> set (map filename es) then AList.delete x (entryCheckedStates h)
       else entryCheckedStates h)"
    by (simp add: g_def f entryCheckedStates_delete_entryChecked)
  have ih: "?P ks g" by (rule Cons.IH)
  have 1: "touched h (fold (\<lambda>fname s.
                  if find (\<lambda>e. filename e = fname) es = None
                  then delete_entryChecked fname s else s) ks g)"
    using ih t by (blast intro: touched_trans)
  have 2: "distinct (map fst (entryCheckedStates h)) \<longrightarrow>
      distinct (map fst (entryCheckedStates (fold (\<lambda>fname s.
                  if find (\<lambda>e. filename e = fname) es = None
                  then delete_entryChecked fname s else s) ks g)))"
    using ih by (simp add: cs distinct_delete)
  have 3: "\<forall>k. map_of (entryCheckedStates (fold (\<lambda>fname s.
                  if find (\<lambda>e. filename e = fname) es = None
                  then delete_entryChecked fname s else s) ks g)) k =
         (if k \<in> set (x # ks) \<and> k \<notin> set (map filename es) then None
          else map_of (entryCheckedStates h) k)"
    using ih by (auto simp: cs delete_conv')
  from 1 2 3 show ?case by (simp add: g_def)
qed

lemma keys_map_of: "set (map fst cs) = {k. map_of cs k \<noteq> None}"
  by (auto simp: map_of_eq_None_iff)

lemma on_historyEntries_settles:
  assumes d: "distinct (map fst (entryCheckedStates h))"
    and es: "historyEntries h = es" "distinct (map filename es)"
      "\<forall>e \<in> set es. filename e \<notin> set Object_prototype"
    and w: "watch_ok h" "Watch_historyEntries \<notin> set (jobs h)"
  shows "stable (on_historyEntries es h) \<and>
         historyEntries (on_historyEntries es h) = es \<and>
         (\<forall>k \<in> set (map filename es). map_of (entryCheckedStates h) k = None \<longrightarrow>
            map_of (entryCheckedStates (on_historyEntries es h)) k = Some False)"
proof -
  define h1 where "h1 = fold (\<lambda>entry s.
                  if \<not> js_in (filename entry) (entryCheckedStates s)
                  then set_entryChecked (filename entry) False s else s) es h"
  define h2 where "h2 = fold (\<lambda>fname s.
                  if find (\<lambda>e. filename e = fname) es = None
                  then delete_entryChecked fname s else s) (map fst (entryCheckedStates h1)) h1"
  have r: "on_historyEntries es h = updateSelectedEntries h2"
    by (simp add: on_historyEntries_def Let_def h1_def h2_def)
  note i = fold_initialize [OF es(3), of h, folded h1_def]
  note p = fold_prune [of h1 es "map fst (entryCheckedStates h1)", folded h2_def]
  have t: "touched h h2" using i p by (blast intro: touched_trans)
  have d2: "distinct (map fst (entryCheckedStates h2))" using i p d by blast
  have m2: "map_of (entryCheckedStates h2) k =
      (if k \<in> set (map filename es)
       then (if map_of (entryCheckedStates h) k = None then Some False
             else map_of (entryCheckedStates h) k)
       else None)" for k
  proof -
    have "map_of (entryCheckedStates h2) k =
        (if k \<in> set (map fst (entryCheckedStates h1)) \<and> k \<notin> set (map filename es) then None
         else map_of (entryCheckedStates h1) k)"
      using p by blast
    moreover have "map_of (entryCheckedStates h1) k =
        (if k \<in> set (map filename es) \<and> map_of (entryCheckedStates h) k = None
         then Some False else map_of (entryCheckedStates h) k)"
      using i by blast
    moreover have "set (map fst (entryCheckedStates h1)) =
        set (map fst (entryCheckedStates h)) \<union> set (map filename es)"
      using i by blast
    ultimately show ?thesis
      by (auto simp: map_of_eq_None_iff)
  qed
  have k2: "set (map fst (entryCheckedStates h2)) = set (map filename es)"
    unfolding keys_map_of [of "entryCheckedStates h2"] by (auto simp: m2)
  have e2: "historyEntries h2 = es" using t es(1) by (simp add: touched_def)
  have c2: "checked_ok h2" using d2 k2 e2 es(2) by (simp add: checked_ok_def)
  have w2: "watch_ok h2" using t w(1) by (rule touched_watch_ok)
  have j2: "Watch_historyEntries \<notin> set (jobs h2)" using touched_jobs [OF t] w(2) by auto
  have "Watch_historyEntries \<notin> set (jobs (updateSelectedEntries h2))"
    using j2 by (simp add: updateSelectedEntries_jobs [OF d2])
  moreover have "watch_ok (updateSelectedEntries h2)"
    using d2 w2 by (rule updateSelectedEntries_watch_ok)
  moreover have "checked_ok (updateSelectedEntries h2)"
    using c2 by (simp add: checked_ok_def updateSelectedEntries_fields [OF d2])
  moreover have "consistent (updateSelectedEntries h2)"
    using d2 by (rule updateSelectedEntries_consistent_after)
  ultimately have "stable (on_historyEntries es h)" by (simp add: r stable_def)
  moreover have "historyEntries (on_historyEntries es h) = es"
    by (simp add: r updateSelectedEntries_fields [OF d2] e2)
  moreover have "\<forall>k \<in> set (map filename es). map_of (entryCheckedStates h) k = None \<longrightarrow>
            map_of (entryCheckedStates (on_historyEntries es h)) k = Some False"
    by (simp add: r updateSelectedEntries_fields [OF d2] m2)
  ultimately show ?thesis by blast
qed


lemma at_rest_selection_consistent:
  assumes "at_rest h"
  shows "selection_consistent h"
proof -
  from assms have c: "checked_ok h" "consistent h" by (simp_all add: at_rest_def stable_def)
  then have d: "distinct (map fst (entryCheckedStates h))" by (simp add: checked_ok_def)
  have 1: "set (selectedEntries h) = {f. map_of (entryCheckedStates h) f = Some True}"
  proof -
    have "set (selectedEntries h) = {f. (f, True) \<in> set (entryCheckedStates h)}"
      using c(2) by (force simp: consistent_def)
    also have "\<dots> = {f. map_of (entryCheckedStates h) f = Some True}"
      using d by (simp add: map_of_eq_Some_iff)
    finally show ?thesis .
  qed
  have "set (map fst (entryCheckedStates h)) = set (map filename (historyEntries h))"
    using c(1) by (simp add: checked_ok_def)
  then have "(\<forall>k \<in> set (map fst (entryCheckedStates h)). map_of (entryCheckedStates h) k = Some True)
      \<longleftrightarrow> (\<forall>e \<in> set (historyEntries h). map_of (entryCheckedStates h) (filename e) = Some True)"
    by (metis (no_types, lifting) image_iff list.set_map)
  with all_checked_iff [OF c] 1 show ?thesis by (simp add: selection_consistent_def)
qed

lemma toggle_at_rest:
  assumes "at_rest h"
  shows "\<exists>h'. toggle_selectAll h = Some h' \<and> at_rest h'"
proof (cases "History.isLoading h \<or> historyEntries h = []")
  case True
  with assms show ?thesis by (simp add: toggle_selectAll_def)
next
  case False
  from assms have r: "jobs h = []" "seen_selectAllChecked h = selectAllChecked h" "checked_ok h"
    by (auto simp: at_rest_def stable_def watch_ok_def)
  define b where "b = (\<not> selectAllChecked h)"
  define h0 where "h0 = set_selectAllChecked b h"
  define h2 where "h2 = h0\<lparr>jobs := [], seen_selectAllChecked := b\<rparr>"
  have j0: "jobs h0 = [Watch_selectAllChecked]" "selectAllChecked h0 = b"
    "seen_selectAllChecked h0 = (\<not> b)"
    using r by (simp_all add: h0_def b_def set_selectAllChecked_def queueJob_def)
  have step: "flushJobs h0 = flushJobs (on_selectAllChecked b h2)"
    using j0 by (simp add: flushJobs_Cons h2_def)
  have c2: "checked_ok h2" "selectAllChecked h2 = b"
    using r(3) j0 by (simp_all add: checked_ok_def h2_def h0_def set_selectAllChecked_def queueJob_def)
  have e2: "b \<longrightarrow> historyEntries h2 \<noteq> []"
    using False by (simp add: h2_def h0_def set_selectAllChecked_def queueJob_def)
  note s = on_selectAllChecked_settles [OF c2 e2]
  have "stable (on_selectAllChecked b h2)"
    using s by (auto simp: stable_def watch_ok_def h2_def)
  from flushJobs_settles [OF this] step obtain h' where "flushJobs h0 = Some h'" "at_rest h'"
    by auto
  with False show ?thesis by (auto simp: toggle_selectAll_def h0_def b_def)
qed

lemma check_entry_at_rest:
  assumes "at_rest h"
  shows "\<exists>h'. check_entry k c h = Some h' \<and> at_rest h'"
proof (cases "History.isLoading h \<or> \<not> k < length (historyEntries h)")
  case True
  with assms show ?thesis by (simp add: check_entry_def)
next
  case False
  from assms have r: "jobs h = []" "seen_selectAllChecked h = selectAllChecked h" "checked_ok h"
    by (auto simp: at_rest_def stable_def watch_ok_def)
  define f where "f = filename (historyEntries h ! k)"
  define h1 where "h1 = set_entryChecked f (c = Bool True) h"
  have fin: "f \<in> set (map fst (entryCheckedStates h))"
    using False r(3) by (auto simp: f_def checked_ok_def)
  have t: "touched h h1" by (simp add: h1_def touched_set_entryChecked)
  have cs: "entryCheckedStates h1 = AList.update f (c = Bool True) (entryCheckedStates h)"
    using fin by (simp add: h1_def entryCheckedStates_set_entryChecked js_put_own)
  have d1: "distinct (map fst (entryCheckedStates h1))"
    using r(3) by (simp add: cs distinct_update checked_ok_def)
  have k1: "set (map fst (entryCheckedStates h1)) = set (map filename (historyEntries h1))"
    using r(3) t fin by (auto simp: cs dom_update checked_ok_def touched_def)
  have c1: "checked_ok h1"
    using d1 k1 r(3) t by (simp add: checked_ok_def touched_def)
  have w1: "watch_ok h1" using t r(2) by (auto simp: watch_ok_def touched_def)
  have j1: "Watch_historyEntries \<notin> set (jobs h1)" using touched_jobs [OF t] r(1) by auto
  have "stable (updateSelectedEntries h1)"
    using c1 j1 updateSelectedEntries_watch_ok [OF d1 w1] updateSelectedEntries_consistent_after [OF d1]
    by (simp add: stable_def checked_ok_def updateSelectedEntries_fields [OF d1]
        updateSelectedEntries_jobs [OF d1])
  from flushJobs_settles [OF this] obtain h' where
    "flushJobs (updateSelectedEntries h1) = Some h'" "at_rest h'" by auto
  with False show ?thesis by (auto simp: check_entry_def setEntryChecked_def h1_def f_def)
qed

lemma loaded_at_rest:
  assumes "at_rest h" and "listing_ok r"
  shows "\<exists>h'. flushJobs (loaded r h) = Some h' \<and> at_rest h' \<and>
           (case r of
              Inl error \<Rightarrow> h' = h\<lparr>History.isLoading := False\<rparr>
            | Inr es \<Rightarrow>
                historyEntries h' = es \<and>
                set (map fst (entryCheckedStates h')) = set (map filename es) \<and>
                (\<forall>f \<in> set (map filename es).
                    f \<notin> set (map fst (entryCheckedStates h)) \<longrightarrow>
                    map_of (entryCheckedStates h') f = Some False))"
proof (cases r)
  case (Inl e)
  have "at_rest (h\<lparr>History.isLoading := False\<rparr>)"
    using assms(1) by (auto simp: at_rest_def stable_def watch_ok_def checked_ok_def consistent_def)
  then show ?thesis
    using Inl by (simp add: loaded_def flushJobs_Nil at_rest_def)
next
  case (Inr es)
  from assms(1) have r: "jobs h = []" "seen_selectAllChecked h = selectAllChecked h" "checked_ok h"
    by (auto simp: at_rest_def stable_def watch_ok_def)
  from assms(2) Inr have l: "distinct (map filename es)"
    "\<forall>e \<in> set es. filename e \<notin> set Object_prototype"
    by (simp_all add: listing_ok_def list_all_iff)
  define h0 where "h0 = h\<lparr>History.isLoading := False, historyEntries := es, selectedEntries := []\<rparr>"
  have ld: "loaded r h = h0\<lparr>jobs := [Watch_historyEntries]\<rparr>"
    using r(1) by (simp add: Inr loaded_def set_historyEntries_def queueJob_def h0_def)
  have step: "flushJobs (loaded r h) = flushJobs (on_historyEntries es (h0\<lparr>jobs := []\<rparr>))"
    by (simp add: ld flushJobs_Cons h0_def)
  have h0j: "h0\<lparr>jobs := []\<rparr> = h0" using r(1) by (simp add: h0_def)
  have d0: "distinct (map fst (entryCheckedStates h0))" using r(3) by (simp add: h0_def checked_ok_def)
  have e0: "historyEntries h0 = es" by (simp add: h0_def)
  have w0: "watch_ok h0" "Watch_historyEntries \<notin> set (jobs h0)"
    using r by (simp_all add: h0_def watch_ok_def)
  note s = on_historyEntries_settles [OF d0 e0 l w0]
  from s flushJobs_settles [of "on_historyEntries es h0"] obtain h' where h':
    "flushJobs (on_historyEntries es h0) = Some h'" "at_rest h'"
    "historyEntries h' = historyEntries (on_historyEntries es h0)"
    "\<forall>k. map_of (entryCheckedStates (on_historyEntries es h0)) k = Some False \<longrightarrow>
         map_of (entryCheckedStates h') k = Some False"
    by blast
  have e': "historyEntries h' = es" using h'(3) s by simp
  have k': "set (map fst (entryCheckedStates h')) = set (map filename es)"
    using h'(2) e' by (simp add: at_rest_def stable_def checked_ok_def)
  have n': "\<forall>f \<in> set (map filename es).
      f \<notin> set (map fst (entryCheckedStates h)) \<longrightarrow> map_of (entryCheckedStates h') f = Some False"
  proof (intro ballI impI)
    fix f assume f: "f \<in> set (map filename es)" "f \<notin> set (map fst (entryCheckedStates h))"
    then have "map_of (entryCheckedStates h0) f = None"
      by (simp add: h0_def map_of_eq_None_iff)
    with s f(1) have "map_of (entryCheckedStates (on_historyEntries es h0)) f = Some False" by blast
    with h'(4) show "map_of (entryCheckedStates h') f = Some False" by blast
  qed
  from h'(1) h'(2) e' k' n' show ?thesis
    using step [unfolded Inr] h0j by (simp add: Inr)
qed

lemma History_setup_at_rest: "History_setup = Some History_refs \<and> at_rest History_refs"
  by (simp add: History_setup_def on_historyEntries_def History_refs_def updateSelectedEntries_def
      new_Set_def set_selectAllChecked_def flushJobs_Nil at_rest_def stable_def watch_ok_def
      checked_ok_def consistent_def)

lemma reachable_at_rest: "reachable h \<Longrightarrow> at_rest h"
proof (induction rule: reachable.induct)
  case (mounted h)
  then show ?case using History_setup_at_rest by (metis option.inject)
next
  case (toggled h h')
  then show ?case using toggle_at_rest [of h] by auto
next
  case (entry_checked h k c h')
  then show ?case using check_entry_at_rest [of h k c] by auto
next
  case (reloaded h r h')
  then show ?case using loaded_at_rest [of h r] by auto
qed

lemma loadHistory_state:
  "fst (loadHistory be (h, w)) = loaded (fst (on_get_history_list be (fst w))) h"
  by (simp add: loadHistory_def loaded_def invoke_def case_prod_beta split: sum.splits)


lemma at_rest_keys:
  "at_rest h \<Longrightarrow> set (map fst (entryCheckedStates h)) = set (map filename (historyEntries h))"
  by (simp add: at_rest_def stable_def checked_ok_def)

subsection \<open>The example states\<close>

lemma hd_str: "hd (str (c # cs)) = of_char c"
  by (simp add: str_def)

lemma array_index_no_digit:
  "k \<noteq> [] \<Longrightarrow> hd k < 48 \<or> 57 < hd k \<Longrightarrow> array_index k = None"
  by (cases k) (auto simp: array_index_def)

lemma hosts_names:
  "array_index (str ''hosts_1'') = None" "array_index (str ''hosts_2'') = None"
  "str ''hosts_1'' \<notin> set Object_prototype" "str ''hosts_2'' \<notin> set Object_prototype"
  by (simp_all add: array_index_no_digit hd_str Object_prototype_def)

lemma flushJobs_deep_watcher:
  assumes j: "jobs h = [Watch_entryCheckedStates]"
    and d: "distinct (map fst (entryCheckedStates h))"
    and c: "consistent h"
  shows "flushJobs h = Some (h\<lparr>jobs := []\<rparr>)"
proof -
  have "consistent (h\<lparr>jobs := []\<rparr>)" using c by (simp add: consistent_def)
  then have "updateSelectedEntries (h\<lparr>jobs := []\<rparr>) = h\<lparr>jobs := []\<rparr>"
    using d by (intro updateSelectedEntries_consistent) simp_all
  then have "flushJobs h = flushJobs (h\<lparr>jobs := []\<rparr>)"
    using j by (simp add: flushJobs_Cons [of h Watch_entryCheckedStates "[]"] on_entryCheckedStates_def)
  then show ?thesis by (simp add: flushJobs_Nil)
qed

lemmas selection_evaluation =
  on_historyEntries_def on_selectAllChecked_def setEntryChecked_def js_in_def
  set_entryChecked_def js_put_def queueJob_def delete_entryChecked_def
  updateSelectedEntries_def set_selectAllChecked_def new_Set_def Let_def

lemma listed_example_loaded:
  "flushJobs (loaded (Inr (history_index example_store)) History_refs) = Some listed_example"
proof -
  define h where "h = History_refs\<lparr>historyEntries := history_index example_store\<rparr>"
  have 0: "loaded (Inr (history_index example_store)) History_refs = h\<lparr>jobs := [Watch_historyEntries]\<rparr>"
    by (simp add: loaded_def set_historyEntries_def queueJob_def History_refs_def h_def)
  have 1: "on_historyEntries (history_index example_store) h =
      listed_example\<lparr>jobs := [Watch_entryCheckedStates]\<rparr>"
    by (simp add: selection_evaluation h_def listed_example_def example_store_def snapshot_def
        hosts_names History_refs_def)
  have 2: "h\<lparr>jobs := []\<rparr> = h" "historyEntries h = history_index example_store"
    by (simp_all add: h_def History_refs_def)
  have "flushJobs (loaded (Inr (history_index example_store)) History_refs) =
      flushJobs (listed_example\<lparr>jobs := [Watch_entryCheckedStates]\<rparr>)"
    unfolding 0
    by (subst flushJobs_Cons [of _ Watch_historyEntries "[]"]) (simp_all add: 1 2)
  also have "\<dots> = Some (listed_example\<lparr>jobs := [Watch_entryCheckedStates]\<rparr>\<lparr>jobs := []\<rparr>)"
    by (rule flushJobs_deep_watcher)
       (simp_all add: listed_example_def consistent_def History_refs_def example_store_def snapshot_def)
  finally show ?thesis by (simp add: listed_example_def History_refs_def)
qed

lemma one_selected_example_checked:
  "check_entry 0 (Bool True) listed_example = Some one_selected_example"
proof -
  have 1: "setEntryChecked (filename (historyEntries listed_example ! 0)) (Bool True) listed_example =
      one_selected_example\<lparr>jobs := [Watch_entryCheckedStates]\<rparr>"
    by (simp add: selection_evaluation one_selected_example_def listed_example_def
        example_store_def snapshot_def hosts_names History_refs_def)
  have "flushJobs (one_selected_example\<lparr>jobs := [Watch_entryCheckedStates]\<rparr>) =
      Some (one_selected_example\<lparr>jobs := [Watch_entryCheckedStates]\<rparr>\<lparr>jobs := []\<rparr>)"
    by (rule flushJobs_deep_watcher)
       (simp_all add: one_selected_example_def listed_example_def consistent_def History_refs_def
          example_store_def snapshot_def)
  then show ?thesis
    using 1 by (simp add: check_entry_def one_selected_example_def listed_example_def
        History_refs_def example_store_def)
qed

lemma all_selected_example_toggled:
  "toggle_selectAll listed_example = Some all_selected_example"
proof -
  define h where "h = listed_example\<lparr>selectAllChecked := True\<rparr>"
  have 0: "set_selectAllChecked (\<not> selectAllChecked listed_example) listed_example =
      h\<lparr>jobs := [Watch_selectAllChecked]\<rparr>"
    by (simp add: set_selectAllChecked_def queueJob_def listed_example_def History_refs_def h_def)
  have 1: "run_job Watch_selectAllChecked h = all_selected_example\<lparr>jobs := [Watch_entryCheckedStates]\<rparr>"
    by (simp add: selection_evaluation h_def all_selected_example_def listed_example_def
        example_store_def snapshot_def hosts_names History_refs_def)
  have 2: "h\<lparr>jobs := []\<rparr> = h"
    by (simp add: h_def listed_example_def History_refs_def)
  have "flushJobs (h\<lparr>jobs := [Watch_selectAllChecked]\<rparr>) =
      flushJobs (all_selected_example\<lparr>jobs := [Watch_entryCheckedStates]\<rparr>)"
    by (subst flushJobs_Cons [of _ Watch_selectAllChecked "[]"])
       (simp_all add: 1 2 del: run_job.simps)
  also have "\<dots> = Some (all_selected_example\<lparr>jobs := [Watch_entryCheckedStates]\<rparr>\<lparr>jobs := []\<rparr>)"
    by (rule flushJobs_deep_watcher)
       (simp_all add: all_selected_example_def listed_example_def consistent_def History_refs_def
          example_store_def snapshot_def)
  finally show ?thesis
    using 0 by (simp add: toggle_selectAll_def all_selected_example_def listed_example_def
        History_refs_def example_store_def)
qed


lemma listing_example_ok: "listing_ok (Inr (history_index example_store))"
  by (simp add: listing_ok_def example_store_def snapshot_def hosts_names)

lemma listed_example_reachable: "reachable listed_example"
proof -
  have "reachable History_refs"
    using History_setup_at_rest by (auto intro: reachable.mounted)
  then show ?thesis
    using listing_example_ok listed_example_loaded by (rule reachable.reloaded)
qed

lemma listed_example_reload:
  "reload reference_backend (History_refs, example_store, []) =
     Some (listed_example, example_store, [Invoke get_history_list])"
proof -
  have "fst (loadHistory reference_backend (History_refs, example_store, [])) =
      loaded (Inr (history_index example_store)) History_refs"
    by (simp add: loadHistory_state)
  moreover have "snd (loadHistory reference_backend (History_refs, example_store, [])) =
      (example_store, [Invoke get_history_list])"
    by (simp add: loadHistory_def invoke_def Let_def)
  ultimately show ?thesis
    by (simp add: reload_def case_prod_beta listed_example_loaded)
qed

lemma all_selected_example_reachable: "reachable all_selected_example"
  using listed_example_reachable all_selected_example_toggled by (rule reachable.toggled)

subsection \<open>The consistency of the selection\<close>

text \<open>
  Claim C9 says that after every selection operation the selected entries are the file
  names whose checked state is true, that select-all is checked exactly when the list is
  not empty and every listed entry is checked, and that after a reload the keys of the
  checked-state map are the file names of the listed entries. As stated, for every
  listing, it fails. For a listing that names \<open>hosts_1\<close> twice, after the load and a click
  on the first checkbox every listed entry is checked and select-all is not: the map has
  one key and \<open>updateSelectedEntries\<close> compares the size of the selection with the length
  of the list. For a listing with a file named \<open>constructor\<close> the load creates no key:
  \<open>'constructor' in entryCheckedStates\<close> is true of every object.
\<close>

theorem selection_needs_unique_names:
  "flushJobs (loaded (Inr [snapshot ''hosts_1'' 1700000000, snapshot ''hosts_1'' 1700000000])
       History_refs) =
     Some (History_refs
       \<lparr>historyEntries := [snapshot ''hosts_1'' 1700000000, snapshot ''hosts_1'' 1700000000],
        entryCheckedStates := [(str ''hosts_1'', False)]\<rparr>) \<and>
   check_entry 0 (Bool True)
     (History_refs
       \<lparr>historyEntries := [snapshot ''hosts_1'' 1700000000, snapshot ''hosts_1'' 1700000000],
        entryCheckedStates := [(str ''hosts_1'', False)]\<rparr>) =
     Some (History_refs
       \<lparr>historyEntries := [snapshot ''hosts_1'' 1700000000, snapshot ''hosts_1'' 1700000000],
        entryCheckedStates := [(str ''hosts_1'', True)],
        selectedEntries := [str ''hosts_1'']\<rparr>) \<and>
   \<not> selection_consistent
     (History_refs
       \<lparr>historyEntries := [snapshot ''hosts_1'' 1700000000, snapshot ''hosts_1'' 1700000000],
        entryCheckedStates := [(str ''hosts_1'', True)],
        selectedEntries := [str ''hosts_1'']\<rparr>) \<and>
   flushJobs (loaded (Inr [snapshot ''constructor'' 1700000000]) History_refs) =
     Some (History_refs\<lparr>historyEntries := [snapshot ''constructor'' 1700000000]\<rparr>) \<and>
   set (map fst (entryCheckedStates
     (History_refs\<lparr>historyEntries := [snapshot ''constructor'' 1700000000]\<rparr>))) \<noteq>
   set (map filename (historyEntries
     (History_refs\<lparr>historyEntries := [snapshot ''constructor'' 1700000000]\<rparr>)))"
proof -
  define d where "d = [snapshot ''hosts_1'' 1700000000, snapshot ''hosts_1'' 1700000000]"
  define h1 where "h1 = History_refs\<lparr>historyEntries := d,
        entryCheckedStates := [(str ''hosts_1'', False)]\<rparr>"
  define h2 where "h2 = History_refs\<lparr>historyEntries := d,
        entryCheckedStates := [(str ''hosts_1'', True)], selectedEntries := [str ''hosts_1'']\<rparr>"
  define c where "c = [snapshot ''constructor'' 1700000000]"
  have a0: "on_historyEntries d (History_refs\<lparr>historyEntries := d\<rparr>) =
      h1\<lparr>jobs := [Watch_entryCheckedStates]\<rparr>"
    by (simp add: selection_evaluation h1_def d_def snapshot_def hosts_names History_refs_def)
  have "flushJobs (loaded (Inr d) History_refs) =
      flushJobs (h1\<lparr>jobs := [Watch_entryCheckedStates]\<rparr>)"
    by (subst flushJobs_Cons [of _ Watch_historyEntries "[]"])
       (simp_all add: a0 [symmetric] loaded_def set_historyEntries_def queueJob_def History_refs_def)
  also have "\<dots> = Some (h1\<lparr>jobs := [Watch_entryCheckedStates]\<rparr>\<lparr>jobs := []\<rparr>)"
    by (rule flushJobs_deep_watcher)
       (simp_all add: h1_def d_def consistent_def History_refs_def)
  finally have a: "flushJobs (loaded (Inr d) History_refs) = Some h1"
    by (simp add: h1_def History_refs_def)
  have b0: "setEntryChecked (filename (historyEntries h1 ! 0)) (Bool True) h1 =
      h2\<lparr>jobs := [Watch_entryCheckedStates]\<rparr>"
    by (simp add: selection_evaluation h1_def h2_def d_def snapshot_def hosts_names History_refs_def)
  have "flushJobs (h2\<lparr>jobs := [Watch_entryCheckedStates]\<rparr>) =
      Some (h2\<lparr>jobs := [Watch_entryCheckedStates]\<rparr>\<lparr>jobs := []\<rparr>)"
    by (rule flushJobs_deep_watcher)
       (simp_all add: h2_def d_def consistent_def History_refs_def)
  then have b: "check_entry 0 (Bool True) h1 = Some h2"
    using b0 by (simp add: check_entry_def h1_def h2_def d_def History_refs_def)
  have n: "\<not> selection_consistent h2"
    by (simp add: selection_consistent_def h2_def d_def snapshot_def History_refs_def)
  have c0: "on_historyEntries c (History_refs\<lparr>historyEntries := c\<rparr>) =
      History_refs\<lparr>historyEntries := c\<rparr>"
    by (simp add: selection_evaluation c_def snapshot_def Object_prototype_def History_refs_def)
  have "flushJobs (loaded (Inr c) History_refs) = flushJobs (History_refs\<lparr>historyEntries := c\<rparr>)"
    by (subst flushJobs_Cons [of _ Watch_historyEntries "[]"])
       (simp_all add: c0 [unfolded History_refs_def, simplified] loaded_def set_historyEntries_def
          queueJob_def History_refs_def)
  then have e: "flushJobs (loaded (Inr c) History_refs) = Some (History_refs\<lparr>historyEntries := c\<rparr>)"
    by (simp add: flushJobs_Nil History_refs_def)
  have k: "set (map fst (entryCheckedStates (History_refs\<lparr>historyEntries := c\<rparr>))) \<noteq>
      set (map filename (historyEntries (History_refs\<lparr>historyEntries := c\<rparr>)))"
    by (simp add: History_refs_def c_def)
  from a b n e k show ?thesis
    unfolding h1_def h2_def d_def c_def by blast
qed

text \<open>
  Claim C9 as amended: the listings are those whose file names are pairwise distinct and
  none of them the name of a property of \<open>Object.prototype\<close>. In every state of the
  history view between two events the selection is then consistent: \<open>selectedEntries\<close>
  holds exactly the file names whose checked state is true, \<open>selectAllChecked\<close> is true
  exactly when the list is not empty and every listed entry is checked, and the keys of
  the checked-state map are the file names of the listed entries. From such a state each
  selection operation returns (the flush of the watchers ends) in a state that is
  consistent again: toggling select-all, setting the checkbox of an entry, and reloading
  the list. After a reload that the backend answers with such a listing, the listed
  entries are the answer's, the keys of the map are their file names, and the file names
  that had no key before are unchecked.
\<close>

theorem selection_state_consistent:
  assumes "reachable h"
  shows "selection_consistent h \<and>
         set (map fst (entryCheckedStates h)) = set (map filename (historyEntries h)) \<and>
         (\<exists>h'. toggle_selectAll h = Some h' \<and> reachable h' \<and> selection_consistent h') \<and>
         (\<exists>h'. check_entry k c h = Some h' \<and> reachable h' \<and> selection_consistent h') \<and>
         (listing_ok (fst (on_get_history_list be (fst w))) \<longrightarrow>
            (\<exists>h' w'. reload be (h, w) = Some (h', w') \<and> reachable h' \<and>
               selection_consistent h' \<and>
               (case fst (on_get_history_list be (fst w)) of
                  Inl error \<Rightarrow> h' = h\<lparr>History.isLoading := False\<rparr>
                | Inr es \<Rightarrow>
                    historyEntries h' = es \<and>
                    set (map fst (entryCheckedStates h')) = set (map filename es) \<and>
                    (\<forall>f \<in> set (map filename es).
                        f \<notin> set (map fst (entryCheckedStates h)) \<longrightarrow>
                        map_of (entryCheckedStates h') f = Some False))))"
proof -
  from assms have r: "at_rest h" by (rule reachable_at_rest)
  from toggle_at_rest [OF r] obtain h1 where h1: "toggle_selectAll h = Some h1" "at_rest h1"
    by blast
  from check_entry_at_rest [OF r] obtain h2 where h2: "check_entry k c h = Some h2" "at_rest h2"
    by blast
  have 1: "\<exists>h'. toggle_selectAll h = Some h' \<and> reachable h' \<and> selection_consistent h'"
    using h1 assms by (auto intro: reachable.toggled at_rest_selection_consistent)
  have 2: "\<exists>h'. check_entry k c h = Some h' \<and> reachable h' \<and> selection_consistent h'"
    using h2 assms by (auto intro: reachable.entry_checked at_rest_selection_consistent)
  have 3: "\<exists>h' w'. reload be (h, w) = Some (h', w') \<and> reachable h' \<and>
               selection_consistent h' \<and>
               (case fst (on_get_history_list be (fst w)) of
                  Inl error \<Rightarrow> h' = h\<lparr>History.isLoading := False\<rparr>
                | Inr es \<Rightarrow>
                    historyEntries h' = es \<and>
                    set (map fst (entryCheckedStates h')) = set (map filename es) \<and>
                    (\<forall>f \<in> set (map filename es).
                        f \<notin> set (map fst (entryCheckedStates h)) \<longrightarrow>
                        map_of (entryCheckedStates h') f = Some False))"
    if l: "listing_ok (fst (on_get_history_list be (fst w)))"
  proof -
    define a where "a = fst (on_get_history_list be (fst w))"
    from loaded_at_rest [OF r l] obtain h3 where h3:
      "flushJobs (loaded a h) = Some h3" "at_rest h3"
      "case a of
         Inl error \<Rightarrow> h3 = h\<lparr>History.isLoading := False\<rparr>
       | Inr es \<Rightarrow>
           historyEntries h3 = es \<and>
           set (map fst (entryCheckedStates h3)) = set (map filename es) \<and>
           (\<forall>f \<in> set (map filename es).
               f \<notin> set (map fst (entryCheckedStates h)) \<longrightarrow>
               map_of (entryCheckedStates h3) f = Some False)"
      unfolding a_def by blast
    have "fst (loadHistory be (h, w)) = loaded a h" by (simp only: loadHistory_state a_def)
    then have "reload be (h, w) = Some (h3, snd (loadHistory be (h, w)))"
      using h3(1) by (simp add: reload_def case_prod_beta)
    moreover have "reachable h3"
      using assms l h3(1) unfolding a_def by (rule reachable.reloaded)
    moreover have "selection_consistent h3" using h3(2) by (rule at_rest_selection_consistent)
    ultimately show ?thesis using h3(3) unfolding a_def by blast
  qed
  from at_rest_selection_consistent [OF r] at_rest_keys [OF r] 1 2 3 show ?thesis by blast
qed

theorem selection_state_consistent_witness:
  "reachable listed_example \<and>
   listing_ok (fst (on_get_history_list reference_backend
     (fst (example_store\<lparr>history_index :=
        [snapshot ''hosts_3'' 1700001200, snapshot ''hosts_2'' 1700000600]\<rparr>, [])))) \<and>
   selection_consistent listed_example \<and>
   toggle_selectAll listed_example = Some all_selected_example \<and>
   selection_consistent all_selected_example \<and>
   check_entry 0 (Bool True) listed_example = Some one_selected_example \<and>
   selection_consistent one_selected_example \<and>
   (\<exists>h' w'. reload reference_backend
        (listed_example,
         example_store\<lparr>history_index :=
           [snapshot ''hosts_3'' 1700001200, snapshot ''hosts_2'' 1700000600]\<rparr>, []) =
        Some (h', w') \<and>
      selection_consistent h' \<and>
      historyEntries h' = [snapshot ''hosts_3'' 1700001200, snapshot ''hosts_2'' 1700000600] \<and>
      set (map fst (entryCheckedStates h')) = {str ''hosts_3'', str ''hosts_2''} \<and>
      map_of (entryCheckedStates h') (str ''hosts_3'') = Some False)"
proof -
  have l: "listing_ok (fst (on_get_history_list reference_backend
     (fst (example_store\<lparr>history_index :=
        [snapshot ''hosts_3'' 1700001200, snapshot ''hosts_2'' 1700000600]\<rparr>, []))))"
    by (simp add: listing_ok_def snapshot_def array_index_no_digit hd_str Object_prototype_def)
  have k: "str ''hosts_3'' \<notin> set (map fst (entryCheckedStates listed_example))"
    by (simp add: listed_example_def)
  from selection_state_consistent
    [OF listed_example_reachable, of 0 "Bool True" reference_backend
      "(example_store\<lparr>history_index :=
        [snapshot ''hosts_3'' 1700001200, snapshot ''hosts_2'' 1700000600]\<rparr>, [])"]
    l k listed_example_reachable all_selected_example_toggled one_selected_example_checked
  show ?thesis
    by (auto simp: snapshot_def)
qed

subsection \<open>Deleting history files\<close>

lemma history_delete_one_index:
  "snd (history_delete_one f idx) = filter (\<lambda>e. filename e \<noteq> f) idx"
  by (induction idx) (auto simp: history_delete_one_def)

lemma history_delete_Cons:
  "history_delete (f # fs) idx =
     ((f, fst (history_delete_one f idx)) # fst (history_delete fs (snd (history_delete_one f idx))),
      snd (history_delete fs (snd (history_delete_one f idx))))"
  by (simp add: case_prod_beta)

lemma history_delete_names: "map fst (fst (history_delete fs idx)) = fs"
  by (induction fs arbitrary: idx) (simp_all add: history_delete_Cons del: history_delete.simps(2))

lemma history_delete_index:
  "snd (history_delete fs idx) = filter (\<lambda>e. filename e \<notin> set fs) idx"
proof (induction fs arbitrary: idx)
  case Nil
  show ?case by simp
next
  case (Cons f fs)
  have "snd (history_delete (f # fs) idx) = snd (history_delete fs (snd (history_delete_one f idx)))"
    by (simp add: history_delete_Cons del: history_delete.simps(2))
  also have "\<dots> = filter (\<lambda>e. filename e \<notin> set fs) (filter (\<lambda>e. filename e \<noteq> f) idx)"
    by (simp only: Cons.IH history_delete_one_index)
  also have "\<dots> = filter (\<lambda>e. filename e \<notin> set (f # fs)) idx"
    by (induction idx) auto
  finally show ?case .
qed

lemma history_delete_outcomes:
  "distinct fs \<Longrightarrow>
     fst (history_delete fs idx) =
       map (\<lambda>f. (f, if f \<in> set (map filename idx) then Deleted
                     else Not_deleted (str ''NotFoundError''))) fs"
proof (induction fs arbitrary: idx)
  case Nil
  show ?case by simp
next
  case (Cons f fs)
  from Cons.prems have d: "distinct fs" "f \<notin> set fs" by simp_all
  have "fst (history_delete fs (snd (history_delete_one f idx))) =
      map (\<lambda>g. (g, if g \<in> set (map filename (filter (\<lambda>e. filename e \<noteq> f) idx)) then Deleted
                     else Not_deleted (str ''NotFoundError''))) fs"
    using Cons.IH [OF d(1)] by (simp only: history_delete_one_index)
  also have "\<dots> = map (\<lambda>g. (g, if g \<in> set (map filename idx) then Deleted
                     else Not_deleted (str ''NotFoundError''))) fs"
    using d(2) by (intro map_cong) auto
  finally show ?case
    by (simp add: history_delete_Cons history_delete_one_def del: history_delete.simps(2))
qed

text \<open>
  Claim C2 says that the caller receives the per-file outcome of \<open>delete_history_files\<close>
  and that success is not reported for files whose deletion failed. \<open>deleteSelected\<close> does
  not read the result of the invocation. The view loads the listing of the example store
  (\<open>hosts_2\<close> and \<open>hosts_1\<close>) and the user selects all; by the time of the deletion
  \<open>hosts_1\<close> is no longer in the index. The reference backend reports that \<open>hosts_1\<close> was
  not deleted, and the component shows "Successfully deleted 2 entries".
\<close>

theorem delete_report_not_read_example:
  "reload reference_backend (History_refs, example_store, []) =
     Some (listed_example, example_store, [Invoke get_history_list]) \<and>
   toggle_selectAll listed_example = Some all_selected_example \<and>
   reachable all_selected_example \<and>
   selectedEntries all_selected_example = [str ''hosts_2'', str ''hosts_1''] \<and>
   fst (on_delete_history_files reference_backend [str ''hosts_2'', str ''hosts_1'']
          (example_store\<lparr>history_index := [snapshot ''hosts_2'' 1700000600]\<rparr>)) =
     Inr [(str ''hosts_2'', Deleted), (str ''hosts_1'', Not_deleted (str ''NotFoundError''))] \<and>
   snd (snd (deleteSelected reference_backend (\<lambda>m. True)
     (all_selected_example,
      example_store\<lparr>history_index := [snapshot ''hosts_2'' 1700000600]\<rparr>, []))) =
     [Confirm (str ''Are you sure you want to delete 2 history entries?''),
      Invoke (delete_history_files [str ''hosts_2'', str ''hosts_1'']),
      Toast_success (str ''Successfully deleted 2 entries'') None,
      Invoke get_history_list]"
proof -
  have s: "selectedEntries all_selected_example = [str ''hosts_2'', str ''hosts_1'']"
    by (simp add: all_selected_example_def)
  have r: "fst (on_delete_history_files reference_backend [str ''hosts_2'', str ''hosts_1'']
          (example_store\<lparr>history_index := [snapshot ''hosts_2'' 1700000600]\<rparr>)) =
     Inr [(str ''hosts_2'', Deleted), (str ''hosts_1'', Not_deleted (str ''NotFoundError''))]"
    by (simp add: snapshot_def history_delete_one_def split: prod.splits)
  have q: "delete_question 2 = str ''Are you sure you want to delete 2 history entries?''"
    "deleted_message 2 = str ''Successfully deleted 2 entries''"
    by (simp_all add: delete_question_def deleted_message_def decimal.simps str_def)
  have t: "snd (snd (deleteSelected reference_backend (\<lambda>m. True)
     (all_selected_example,
      example_store\<lparr>history_index := [snapshot ''hosts_2'' 1700000600]\<rparr>, []))) =
     [Confirm (delete_question 2),
      Invoke (delete_history_files [str ''hosts_2'', str ''hosts_1'']),
      Toast_success (deleted_message 2) None,
      Invoke get_history_list]"
    by (simp add: deleteSelected_def loadHistory_def invoke_def emit_def s Let_def
        numeral_2_eq_2 split: prod.splits)
  from listed_example_reload all_selected_example_toggled all_selected_example_reachable s r t
  show ?thesis
    by (simp only: q simp_thms)
qed

text \<open>
  Claim C2 as amended. \<open>deleteSelected\<close>, for a selection that is not empty and a confirmed
  dialog, passes the whole selection to one \<open>delete_history_files\<close> invocation and does not
  read what it answers: whenever the invocation resolves, whatever it reports, the component
  shows one success toast with the number of selected entries and reloads the list; when
  it rejects, the component logs the error and shows one error toast for the batch. The
  backend's part is as the specification has it: \<open>history_delete\<close> answers one outcome per
  file of the batch, in order, removes every named entry that is in the index (a missing
  file does not stop the rest), and for a batch without repetitions reports a file as
  deleted exactly when it was in the index.
\<close>

theorem delete_selected_ignores_report:
  assumes "selectedEntries h \<noteq> []"
    and "confirm (delete_question (length (selectedEntries h)))"
  shows "(case on_delete_history_files be (selectedEntries h) (fst w) of
            (Inr report, b) \<Rightarrow>
              deleteSelected be confirm (h, w) =
                (case loadHistory be
                        (h\<lparr>isDeleting := True\<rparr>, b,
                         snd w @ [Confirm (delete_question (length (selectedEntries h))),
                                  Invoke (delete_history_files (selectedEntries h)),
                                  Toast_success (deleted_message (length (selectedEntries h))) None])
                 of (h2, w2) \<Rightarrow> (h2\<lparr>isDeleting := False\<rparr>, w2))
          | (Inl error, b) \<Rightarrow>
              deleteSelected be confirm (h, w) =
                (h\<lparr>isDeleting := False\<rparr>, b,
                 snd w @ [Confirm (delete_question (length (selectedEntries h))),
                          Invoke (delete_history_files (selectedEntries h)),
                          Console_error (str ''Failed to delete history files:'') error,
                          Toast_error (str ''Failed to delete history files'') (Some error)])) \<and>
         map fst (fst (history_delete fs idx)) = fs \<and>
         snd (history_delete fs idx) = filter (\<lambda>e. filename e \<notin> set fs) idx \<and>
         (distinct fs \<longrightarrow>
            fst (history_delete fs idx) =
              map (\<lambda>f. (f, if f \<in> set (map filename idx) then Deleted
                            else Not_deleted (str ''NotFoundError''))) fs)"
proof -
  have ui: "case on_delete_history_files be (selectedEntries h) (fst w) of
            (Inr report, b) \<Rightarrow>
              deleteSelected be confirm (h, w) =
                (case loadHistory be
                        (h\<lparr>isDeleting := True\<rparr>, b,
                         snd w @ [Confirm (delete_question (length (selectedEntries h))),
                                  Invoke (delete_history_files (selectedEntries h)),
                                  Toast_success (deleted_message (length (selectedEntries h))) None])
                 of (h2, w2) \<Rightarrow> (h2\<lparr>isDeleting := False\<rparr>, w2))
          | (Inl error, b) \<Rightarrow>
              deleteSelected be confirm (h, w) =
                (h\<lparr>isDeleting := False\<rparr>, b,
                 snd w @ [Confirm (delete_question (length (selectedEntries h))),
                          Invoke (delete_history_files (selectedEntries h)),
                          Console_error (str ''Failed to delete history files:'') error,
                          Toast_error (str ''Failed to delete history files'') (Some error)])"
    using assms
    by (simp add: deleteSelected_def invoke_def emit_def Let_def split: prod.splits sum.splits)
  show ?thesis
    using ui history_delete_names [of fs idx] history_delete_index [of fs idx]
      history_delete_outcomes [of fs idx]
    by simp
qed

theorem delete_selected_ignores_report_witness:
  "deleteSelected reference_backend (\<lambda>m. True)
     (all_selected_example,
      example_store\<lparr>history_index := [snapshot ''hosts_2'' 1700000600]\<rparr>, []) =
     (all_selected_example\<lparr>historyEntries := [], jobs := [Watch_historyEntries],
                           selectedEntries := []\<rparr>,
      example_store\<lparr>history_index := []\<rparr>,
      [Confirm (delete_question 2),
       Invoke (delete_history_files [str ''hosts_2'', str ''hosts_1'']),
       Toast_success (deleted_message 2) None,
       Invoke get_history_list]) \<and>
   fst (history_delete [str ''hosts_2'', str ''hosts_1''] [snapshot ''hosts_2'' 1700000600]) =
     [(str ''hosts_2'', Deleted), (str ''hosts_1'', Not_deleted (str ''NotFoundError''))]"
  using delete_selected_ignores_report
    [of all_selected_example "\<lambda>m. True" reference_backend
        "(example_store\<lparr>history_index := [snapshot ''hosts_2'' 1700000600]\<rparr>, [])"
        "[str ''hosts_2'', str ''hosts_1'']" "[snapshot ''hosts_2'' 1700000600]"]
  by (simp add: all_selected_example_def listed_example_def example_store_def snapshot_def
      history_delete_one_def History_refs_def loadHistory_def set_historyEntries_def queueJob_def
      invoke_def Let_def numeral_2_eq_2)

subsection \<open>The round trip of the hosts-file grammar\<close>

lemma split_lines_not_Nil: "split_lines t \<noteq> []"
  by (induction t) (auto simp: push_char_def)

lemma join_split_lines: "join_lines (split_lines t) = t"
proof (induction t)
  case Nil
  show ?case by simp
next
  case (Cons c cs)
  obtain l ls where s: "split_lines cs = l # ls"
    using split_lines_not_Nil [of cs] by (cases "split_lines cs") auto
  with Cons show ?case by (cases ls) (auto simp: push_char_def)
qed

lemma hostname_tokens_text:
  "hostname_tokens s = (hs, trailing, comment) \<Longrightarrow>
   concat (map (\<lambda>(separator, hostname). separator @ hostname) hs) @ trailing
     @ (case comment of None \<Rightarrow> [] | Some c \<Rightarrow> c) = s"
proof (induction s arbitrary: hs trailing comment rule: hostname_tokens.induct)
  case (1 s)
  define r where "r = dropWhile is_space s"
  have s: "takeWhile is_space s @ r = s" by (simp add: r_def)
  show ?case
  proof (cases "takeWhile is_token r = []")
    case True
    with "1.prems" have "hs = []" "trailing = takeWhile is_space s"
      "comment = (if r = [] then None else Some r)"
      by (auto simp: hostname_tokens.simps [of s] r_def Let_def)
    then show ?thesis using s by (cases "r = []") simp_all
  next
    case False
    obtain hs' t' c' where rec: "hostname_tokens (dropWhile is_token r) = (hs', t', c')"
      by (cases "hostname_tokens (dropWhile is_token r)") auto
    with "1.prems" False have eq: "hs = (takeWhile is_space s, takeWhile is_token r) # hs'"
      "trailing = t'" "comment = c'"
      by (simp_all add: hostname_tokens.simps [of s] r_def Let_def)
    have "concat (map (\<lambda>(separator, hostname). separator @ hostname) hs') @ t'
        @ (case c' of None \<Rightarrow> [] | Some c \<Rightarrow> c) = dropWhile is_token r"
      by (rule "1.IH" [OF refl refl refl, folded r_def, OF False rec])
    then have "concat (map (\<lambda>(separator, hostname). separator @ hostname) hs) @ trailing
        @ (case comment of None \<Rightarrow> [] | Some c \<Rightarrow> c)
        = takeWhile is_space s @ takeWhile is_token r @ dropWhile is_token r"
      by (simp add: eq)
    also have "\<dots> = s" using s by simp
    finally show ?thesis .
  qed
qed

lemma serialize_parse_line:
  assumes "parse_line l = Some r"
  shows "serialize_line r = l"
proof -
  define x where "x = dropWhile is_space l"
  have l: "takeWhile is_space l @ x = l" by (simp add: x_def)
  show ?thesis
  proof (cases "x = [] \<or> hd x = CHR ''#''")
    case True
    with assms have "r = Blank (takeWhile is_space l) \<and> x = [] \<or> r = Comment (takeWhile is_space l) x"
      by (auto simp: parse_line_def Let_def x_def split: if_splits)
    then show ?thesis using l by (cases "x = []") auto
  next
    case False
    obtain hs t c where rec: "hostname_tokens (dropWhile is_token x) = (hs, t, c)"
      by (cases "hostname_tokens (dropWhile is_token x)") auto
    with assms False have "r = Mapping (takeWhile is_space l) (takeWhile is_token x) hs t c"
      by (auto simp: parse_line_def Let_def x_def split: if_splits)
    moreover have "takeWhile is_space l @ takeWhile is_token x @ dropWhile is_token x = l"
      using l by simp
    ultimately show ?thesis using hostname_tokens_text [OF rec] by simp
  qed
qed

lemma serialize_parse_lines:
  "parse_lines n ls = Inr rs \<Longrightarrow> map serialize_line rs = ls"
proof (induction ls arbitrary: n rs)
  case Nil
  then show ?case by simp
next
  case (Cons l ls)
  then show ?case
    by (auto simp: serialize_parse_line split: option.splits sum.splits)
qed

text \<open>
  C3. Round-trip law: for every hosts-file text that \<open>parse\<close> accepts, serializing the
  records it returned gives the text back, byte for byte; \<open>serialize\<close> is a left inverse
  of \<open>parse\<close> on the accepted texts.
\<close>

theorem serialize_parse:
  assumes "parse T = Inr rs"
  shows "serialize rs = T"
  using assms serialize_parse_lines [of 1 "split_lines T" rs]
  by (simp add: parse_def serialize_def join_split_lines)

lemma parse_hosts_example:
  "parse hosts_example =
     Inr [Mapping [] ''127.0.0.1'' [('' '', ''localhost'')] [] None,
          Comment [] ''# blocked hosts'',
          Blank [],
          Mapping ''  '' ''0.0.0.0''
            [(''  '', ''ads.example.com''), ('' '', ''tracker.example.com'')]
            '' '' (Some ''# ads''),
          Blank []]"
  by code_simp

lemma parse_rejects_address_alone:
  "parse (join_lines [''# c'', ''0.0.0.0 # nothing'']) = Inl (ParseError 2 ''0.0.0.0 # nothing'')"
  by code_simp

theorem serialize_parse_witness:
  "parse hosts_example =
     Inr [Mapping [] ''127.0.0.1'' [('' '', ''localhost'')] [] None,
          Comment [] ''# blocked hosts'',
          Blank [],
          Mapping ''  '' ''0.0.0.0''
            [(''  '', ''ads.example.com''), ('' '', ''tracker.example.com'')]
            '' '' (Some ''# ads''),
          Blank []] \<and>
   serialize
        [Mapping [] ''127.0.0.1'' [('' '', ''localhost'')] [] None,
          Comment [] ''# blocked hosts'',
          Blank [],
          Mapping ''  '' ''0.0.0.0''
            [(''  '', ''ads.example.com''), ('' '', ''tracker.example.com'')]
            '' '' (Some ''# ads''),
          Blank []] = hosts_example"
  using serialize_parse [OF parse_hosts_example] parse_hosts_example by simp

end
